theory Spec2Isabelle
  imports Complex_Main
begin

section \<open>JavaScript numbers\<close>

text \<open>
  The program is TypeScript: every number is a JavaScript \<open>number\<close>. The model keeps
  the three special values of that type apart from the finite ones and computes on the
  finite ones with exact real arithmetic: \<open>NaN\<close> (the "missing" sample), the two
  infinities, and \<open>Fin x\<close>. These operators do not round, do not overflow to an infinity and
  keep no sign of zero (the rounded operators come in a section of their own below);
  dividing a non-zero finite number by zero gives the infinity of the
  dividend's sign. Every operator below follows the ECMAScript rule for its special
  cases, so a \<open>NaN\<close> operand always gives \<open>NaN\<close>.
\<close>

datatype jsnum = NaN | PInf | NInf | Fin real

fun isFinite :: "jsnum \<Rightarrow> bool" where
  "isFinite (Fin a) = True"
| "isFinite NaN = False"
| "isFinite PInf = False"
| "isFinite NInf = False"

fun isNaN :: "jsnum \<Rightarrow> bool" where
  "isNaN NaN = True"
| "isNaN PInf = False"
| "isNaN NInf = False"
| "isNaN (Fin a) = False"

fun jneg :: "jsnum \<Rightarrow> jsnum" where
  "jneg NaN = NaN"
| "jneg PInf = NInf"
| "jneg NInf = PInf"
| "jneg (Fin a) = Fin (- a)"

fun jadd :: "jsnum \<Rightarrow> jsnum \<Rightarrow> jsnum" where
  "jadd (Fin a) (Fin b) = Fin (a + b)"
| "jadd NaN y = NaN"
| "jadd x NaN = NaN"
| "jadd PInf NInf = NaN"
| "jadd NInf PInf = NaN"
| "jadd PInf y = PInf"
| "jadd x PInf = PInf"
| "jadd NInf y = NInf"
| "jadd x NInf = NInf"

definition jsub :: "jsnum \<Rightarrow> jsnum \<Rightarrow> jsnum" where
  "jsub x y = jadd x (jneg y)"

fun jmul :: "jsnum \<Rightarrow> jsnum \<Rightarrow> jsnum" where
  "jmul (Fin a) (Fin b) = Fin (a * b)"
| "jmul NaN y = NaN"
| "jmul x NaN = NaN"
| "jmul PInf (Fin b) = (if b = 0 then NaN else if 0 < b then PInf else NInf)"
| "jmul NInf (Fin b) = (if b = 0 then NaN else if 0 < b then NInf else PInf)"
| "jmul (Fin a) PInf = (if a = 0 then NaN else if 0 < a then PInf else NInf)"
| "jmul (Fin a) NInf = (if a = 0 then NaN else if 0 < a then NInf else PInf)"
| "jmul PInf PInf = PInf"
| "jmul NInf NInf = PInf"
| "jmul PInf NInf = NInf"
| "jmul NInf PInf = NInf"

fun jdiv :: "jsnum \<Rightarrow> jsnum \<Rightarrow> jsnum" where
  "jdiv (Fin a) (Fin b) =
     (if b \<noteq> 0 then Fin (a / b)
      else if a = 0 then NaN else if 0 < a then PInf else NInf)"
| "jdiv NaN y = NaN"
| "jdiv x NaN = NaN"
| "jdiv (Fin a) PInf = Fin 0"
| "jdiv (Fin a) NInf = Fin 0"
| "jdiv PInf (Fin b) = (if 0 \<le> b then PInf else NInf)"
| "jdiv NInf (Fin b) = (if 0 \<le> b then NInf else PInf)"
| "jdiv PInf PInf = NaN"
| "jdiv PInf NInf = NaN"
| "jdiv NInf PInf = NaN"
| "jdiv NInf NInf = NaN"

text \<open>
  The remainder operator \<open>%\<close> truncates the quotient towards zero, so the result has the
  sign of the dividend.
\<close>

definition trunc :: "real \<Rightarrow> int" where
  "trunc x = (if 0 \<le> x then \<lfloor>x\<rfloor> else \<lceil>x\<rceil>)"

definition fmod :: "real \<Rightarrow> real \<Rightarrow> real" where
  "fmod a b = a - b * of_int (trunc (a / b))"

fun jmod :: "jsnum \<Rightarrow> jsnum \<Rightarrow> jsnum" where
  "jmod (Fin a) (Fin b) = (if b = 0 then NaN else Fin (fmod a b))"
| "jmod NaN y = NaN"
| "jmod x NaN = NaN"
| "jmod PInf y = NaN"
| "jmod NInf y = NaN"
| "jmod (Fin a) PInf = Fin a"
| "jmod (Fin a) NInf = Fin a"

fun jfloor :: "jsnum \<Rightarrow> jsnum" where
  "jfloor (Fin a) = Fin (of_int \<lfloor>a\<rfloor>)"
| "jfloor NaN = NaN"
| "jfloor PInf = PInf"
| "jfloor NInf = NInf"

text \<open>Comparisons: any comparison with \<open>NaN\<close> is false.\<close>

fun jlt :: "jsnum \<Rightarrow> jsnum \<Rightarrow> bool" where
  "jlt (Fin a) (Fin b) = (a < b)"
| "jlt NaN y = False"
| "jlt x NaN = False"
| "jlt PInf y = False"
| "jlt x NInf = False"
| "jlt NInf y = True"
| "jlt x PInf = True"

definition jgt :: "jsnum \<Rightarrow> jsnum \<Rightarrow> bool" where
  "jgt x y = jlt y x"

definition jle :: "jsnum \<Rightarrow> jsnum \<Rightarrow> bool" where
  "jle x y = (x \<noteq> NaN \<and> y \<noteq> NaN \<and> (jlt x y \<or> x = y))"

definition jge :: "jsnum \<Rightarrow> jsnum \<Rightarrow> bool" where
  "jge x y = jle y x"

text \<open>\<open>Math.max\<close> and \<open>Math.min\<close> of two arguments.\<close>

definition jmax :: "jsnum \<Rightarrow> jsnum \<Rightarrow> jsnum" where
  "jmax x y = (if x = NaN \<or> y = NaN then NaN else if jlt x y then y else x)"

definition jmin :: "jsnum \<Rightarrow> jsnum \<Rightarrow> jsnum" where
  "jmin x y = (if x = NaN \<or> y = NaN then NaN else if jlt y x then y else x)"

fun jsqrt :: "jsnum \<Rightarrow> jsnum" where
  "jsqrt (Fin a) = (if a < 0 then NaN else Fin (sqrt a))"
| "jsqrt NaN = NaN"
| "jsqrt PInf = PInf"
| "jsqrt NInf = NaN"

fun jcos :: "jsnum \<Rightarrow> jsnum" where
  "jcos (Fin a) = Fin (cos a)"
| "jcos NaN = NaN"
| "jcos PInf = NaN"
| "jcos NInf = NaN"

fun jsin :: "jsnum \<Rightarrow> jsnum" where
  "jsin (Fin a) = Fin (sin a)"
| "jsin NaN = NaN"
| "jsin PInf = NaN"
| "jsin NInf = NaN"

text \<open>
  A typed array read \<open>A[k]\<close>. The element exists when \<open>k\<close> is an integer with
  \<open>0 \<le> k < A.length\<close>; every other key (negative, fractional, infinite, \<open>NaN\<close>, past the
  end) reads \<open>undefined\<close>, which arithmetic and \<open>Number.isFinite\<close> treat as \<open>NaN\<close>. No
  read raises.
\<close>

definition aget :: "jsnum list \<Rightarrow> jsnum \<Rightarrow> jsnum" where
  "aget A k =
     (case k of
        Fin r \<Rightarrow>
          if r = of_int \<lfloor>r\<rfloor> \<and> 0 \<le> r \<and> r < real (length A) then A ! nat \<lfloor>r\<rfloor> else NaN
      | NaN \<Rightarrow> NaN
      | PInf \<Rightarrow> NaN
      | NInf \<Rightarrow> NaN)"

section \<open>The grid and the field sampler\<close>

record GridMeta =
  nx :: jsnum
  ny :: jsnum
  lo1 :: jsnum
  la1 :: jsnum
  dx :: jsnum
  dy :: jsnum

record wind =
  u :: jsnum
  v :: jsnum

text \<open>\<open>idx(j, i) = j * nx + ((i + nx) % nx)\<close>\<close>

definition idx :: "GridMeta \<Rightarrow> jsnum \<Rightarrow> jsnum \<Rightarrow> jsnum" where
  "idx g j i = jadd (jmul j (nx g)) (jmod (jadd i (nx g)) (nx g))"

definition normalizeLon :: "jsnum \<Rightarrow> jsnum" where
  "normalizeLon lo =
     (let n0 = jsub (jmod (jadd lo (Fin 180)) (Fin 360)) (Fin 180);
          n1 = (if jlt n0 (Fin (- 180)) then jadd n0 (Fin 360) else n0);
          n2 = (if jgt n1 (Fin 180) then jsub n1 (Fin 360) else n1)
      in n2)"

text \<open>
  The fractional grid coordinates \<open>i\<close> and \<open>j\<close> of \<open>windAt\<close>, their floors \<open>i0\<close>, \<open>j0\<close> and
  the offsets \<open>fi\<close>, \<open>fj\<close>.
\<close>

definition gridI :: "GridMeta \<Rightarrow> jsnum \<Rightarrow> jsnum" where
  "gridI g lo =
     jdiv (jmod (jadd (jsub (normalizeLon lo) (lo1 g)) (Fin 360)) (Fin 360)) (dx g)"

definition gridJ :: "GridMeta \<Rightarrow> jsnum \<Rightarrow> jsnum" where
  "gridJ g la = jdiv (jsub (la1 g) la) (dy g)"

text \<open>The four samples \<open>g00\<close>, \<open>g10\<close>, \<open>g01\<close>, \<open>g11\<close> that \<open>interp\<close> reads, in that order.\<close>

definition neighbours :: "GridMeta \<Rightarrow> jsnum list \<Rightarrow> jsnum \<Rightarrow> jsnum \<Rightarrow> jsnum list" where
  "neighbours g A j0 i0 =
     [aget A (idx g j0 i0),
      aget A (idx g j0 (jadd i0 (Fin 1))),
      aget A (idx g (jadd j0 (Fin 1)) i0),
      aget A (idx g (jadd j0 (Fin 1)) (jadd i0 (Fin 1)))]"

definition blend :: "jsnum \<Rightarrow> jsnum \<Rightarrow> jsnum \<Rightarrow> jsnum \<Rightarrow> jsnum \<Rightarrow> jsnum \<Rightarrow> jsnum" where
  "blend g00 g10 g01 g11 fi fj =
     jadd (jadd (jadd
       (jmul (jmul g00 (jsub (Fin 1) fi)) (jsub (Fin 1) fj))
       (jmul (jmul g10 fi) (jsub (Fin 1) fj)))
       (jmul (jmul g01 (jsub (Fin 1) fi)) fj))
       (jmul (jmul g11 fi) fj)"

definition interp :: "GridMeta \<Rightarrow> jsnum list \<Rightarrow> jsnum \<Rightarrow> jsnum \<Rightarrow> jsnum \<Rightarrow> jsnum \<Rightarrow> jsnum" where
  "interp g A j0 i0 fi fj =
     (case neighbours g A j0 i0 of
        [g00, g10, g01, g11] \<Rightarrow> blend g00 g10 g01 g11 fi fj
      | _ \<Rightarrow> NaN)"

definition windAt :: "GridMeta \<Rightarrow> jsnum list \<Rightarrow> jsnum list \<Rightarrow> jsnum \<Rightarrow> jsnum \<Rightarrow> wind" where
  "windAt g Us Vs lo la =
     (let i = gridI g lo;
          j = gridJ g la;
          i0 = jfloor i;
          j0 = jfloor j;
          fi = jsub i i0;
          fj = jsub j j0
      in \<lparr> u = interp g Us j0 i0 fi fj, v = interp g Vs j0 i0 fi fj \<rparr>)"


text \<open>
  The temperature branch of the overlay reads its grid through its own index and a
  guarded read: \<open>idxT\<close> takes the remainder twice, so the column is never negative,
  and \<open>safeGet\<close> returns \<open>NaN\<close> for a row outside the grid.
\<close>

definition idxT :: "GridMeta \<Rightarrow> jsnum \<Rightarrow> jsnum \<Rightarrow> jsnum" where
  "idxT tg jj ii =
     (let wrappedII = jmod (jadd (jmod ii (nx tg)) (nx tg)) (nx tg)
      in jadd (jmul jj (nx tg)) wrappedII)"

definition safeGet :: "GridMeta \<Rightarrow> jsnum list \<Rightarrow> jsnum \<Rightarrow> jsnum \<Rightarrow> jsnum" where
  "safeGet tg A jj ii =
     (if jlt jj (Fin 0) \<or> jge jj (ny tg) then NaN
      else
        let k = idxT tg jj ii
        in if jge k (Fin 0) \<and> jlt k (Fin (real (length A))) then aget A k else NaN)"

section \<open>Double-precision arithmetic\<close>

text \<open>
  A JavaScript number is an IEEE 754 binary64 value, and each of \<open>+\<close>, \<open>-\<close>, \<open>*\<close> and \<open>/\<close>
  returns the exact result rounded to the nearest double, a tie going to the double with
  the even significand. \<open>ulp x\<close> is the spacing of the doubles at the magnitude of \<open>x\<close>
  (52 fraction bits, least exponent -1022, so the subnormal numbers have the spacing
  \<open>2 powi - 1074\<close>), \<open>nearest x\<close> the rounded value, and \<open>round64\<close> maps a result that rounds
  to \<open>2 ^ 1024\<close> or beyond to an infinity. The remainder \<open>%\<close> and \<open>Math.floor\<close> of doubles are
  doubles, so they do not round.
\<close>

definition roundEven :: "real \<Rightarrow> int" where
  "roundEven y =
     (let f = \<lfloor>y\<rfloor>; d = y - of_int f
      in if d < 1 / 2 then f else if 1 / 2 < d then f + 1 else if even f then f else f + 1)"

definition ulp :: "real \<Rightarrow> real" where
  "ulp x = 2 powi (max \<lfloor>log 2 \<bar>x\<bar>\<rfloor> (- 1022) - 52)"

definition nearest :: "real \<Rightarrow> real" where
  "nearest x = (if x = 0 then 0 else of_int (roundEven (x / ulp x)) * ulp x)"

definition round64 :: "jsnum \<Rightarrow> jsnum" where
  "round64 x =
     (case x of
        Fin r \<Rightarrow>
          if 2 ^ 1024 \<le> nearest r then PInf
          else if nearest r \<le> - (2 ^ 1024) then NInf
          else Fin (nearest r)
      | NaN \<Rightarrow> NaN
      | PInf \<Rightarrow> PInf
      | NInf \<Rightarrow> NInf)"

text \<open>The four rounded operators.\<close>

definition dadd :: "jsnum \<Rightarrow> jsnum \<Rightarrow> jsnum" where
  "dadd x y = round64 (jadd x y)"

definition dsub :: "jsnum \<Rightarrow> jsnum \<Rightarrow> jsnum" where
  "dsub x y = round64 (jsub x y)"

definition dmul :: "jsnum \<Rightarrow> jsnum \<Rightarrow> jsnum" where
  "dmul x y = round64 (jmul x y)"

definition ddiv :: "jsnum \<Rightarrow> jsnum \<Rightarrow> jsnum" where
  "ddiv x y = round64 (jdiv x y)"

text \<open>
  The field sampler once more, line by line as above, with every arithmetic operator
  rounded.
\<close>

definition idx64 :: "GridMeta \<Rightarrow> jsnum \<Rightarrow> jsnum \<Rightarrow> jsnum" where
  "idx64 g j i = dadd (dmul j (nx g)) (jmod (dadd i (nx g)) (nx g))"

definition normalizeLon64 :: "jsnum \<Rightarrow> jsnum" where
  "normalizeLon64 lo =
     (let n0 = dsub (jmod (dadd lo (Fin 180)) (Fin 360)) (Fin 180);
          n1 = (if jlt n0 (Fin (- 180)) then dadd n0 (Fin 360) else n0);
          n2 = (if jgt n1 (Fin 180) then dsub n1 (Fin 360) else n1)
      in n2)"

definition gridI64 :: "GridMeta \<Rightarrow> jsnum \<Rightarrow> jsnum" where
  "gridI64 g lo =
     ddiv (jmod (dadd (dsub (normalizeLon64 lo) (lo1 g)) (Fin 360)) (Fin 360)) (dx g)"

definition gridJ64 :: "GridMeta \<Rightarrow> jsnum \<Rightarrow> jsnum" where
  "gridJ64 g la = ddiv (dsub (la1 g) la) (dy g)"

definition neighbours64 :: "GridMeta \<Rightarrow> jsnum list \<Rightarrow> jsnum \<Rightarrow> jsnum \<Rightarrow> jsnum list" where
  "neighbours64 g A j0 i0 =
     [aget A (idx64 g j0 i0),
      aget A (idx64 g j0 (dadd i0 (Fin 1))),
      aget A (idx64 g (dadd j0 (Fin 1)) i0),
      aget A (idx64 g (dadd j0 (Fin 1)) (dadd i0 (Fin 1)))]"

definition blend64 :: "jsnum \<Rightarrow> jsnum \<Rightarrow> jsnum \<Rightarrow> jsnum \<Rightarrow> jsnum \<Rightarrow> jsnum \<Rightarrow> jsnum" where
  "blend64 g00 g10 g01 g11 fi fj =
     dadd (dadd (dadd
       (dmul (dmul g00 (dsub (Fin 1) fi)) (dsub (Fin 1) fj))
       (dmul (dmul g10 fi) (dsub (Fin 1) fj)))
       (dmul (dmul g01 (dsub (Fin 1) fi)) fj))
       (dmul (dmul g11 fi) fj)"

definition interp64 :: "GridMeta \<Rightarrow> jsnum list \<Rightarrow> jsnum \<Rightarrow> jsnum \<Rightarrow> jsnum \<Rightarrow> jsnum \<Rightarrow> jsnum" where
  "interp64 g A j0 i0 fi fj =
     (case neighbours64 g A j0 i0 of
        [g00, g10, g01, g11] \<Rightarrow> blend64 g00 g10 g01 g11 fi fj
      | _ \<Rightarrow> NaN)"

definition windAt64 :: "GridMeta \<Rightarrow> jsnum list \<Rightarrow> jsnum list \<Rightarrow> jsnum \<Rightarrow> jsnum \<Rightarrow> wind" where
  "windAt64 g Us Vs lo la =
     (let i = gridI64 g lo;
          j = gridJ64 g la;
          i0 = jfloor i;
          j0 = jfloor j;
          fi = dsub i i0;
          fj = dsub j j0
      in \<lparr> u = interp64 g Us j0 i0 fi fj, v = interp64 g Vs j0 i0 fi fj \<rparr>)"

section \<open>Particles\<close>

definition PARTICLE_LIFE :: jsnum where
  "PARTICLE_LIFE = Fin 601"

definition SPEED_FACTOR :: jsnum where
  "SPEED_FACTOR = Fin (8 / 1000)"

definition GLOBE_RADIUS :: jsnum where
  "GLOBE_RADIUS = Fin 200"

record particle =
  lon :: jsnum
  lat :: jsnum
  age :: jsnum

text \<open>
  One entry of \<open>prevXY\<close>: the last screen position of a particle, \<open>(NaN, NaN)\<close> when there
  is none.
\<close>

type_synonym xy = "jsnum \<times> jsnum"

definition clearPrev :: xy where
  "clearPrev = (NaN, NaN)"

text \<open>
  \<open>Math.random()\<close> is an input of the model: a draw \<open>r\<close> is a real number, which the
  runtime takes from \<open>[0, 1)\<close>. The initial population takes three draws for each
  particle, \<open>recycle\<close> takes two.
\<close>

definition spawn :: "real \<Rightarrow> real \<Rightarrow> real \<Rightarrow> particle" where
  "spawn r1 r2 r3 =
     \<lparr> lon = jsub (jmul (Fin r1) (Fin 360)) (Fin 180),
       lat = jsub (jmul (Fin r2) (Fin 180)) (Fin 90),
       age = jmul (Fin r3) PARTICLE_LIFE \<rparr>"

definition recycle :: "real \<Rightarrow> real \<Rightarrow> particle \<times> xy" where
  "recycle r1 r2 =
     (\<lparr> lon = jsub (jmul (Fin r1) (Fin 360)) (Fin 180),
        lat = jsub (jmul (Fin r2) (Fin 180)) (Fin 90),
        age = Fin 0 \<rparr>,
      clearPrev)"

text \<open>
  The three.js helpers the particle loop calls, as that library defines them:
  \<open>MathUtils.degToRad\<close>, \<open>MathUtils.clamp\<close>, and on \<open>Vector3\<close> the dot product, the length
  and \<open>normalize\<close> (division by the length, or by 1 when the length is zero or \<open>NaN\<close>).
\<close>

definition degToRad :: "jsnum \<Rightarrow> jsnum" where
  "degToRad d = jmul d (Fin (pi / 180))"

definition clamp :: "jsnum \<Rightarrow> jsnum \<Rightarrow> jsnum \<Rightarrow> jsnum" where
  "clamp x lo hi = jmax lo (jmin hi x)"

type_synonym vec3 = "jsnum \<times> jsnum \<times> jsnum"

definition dot :: "vec3 \<Rightarrow> vec3 \<Rightarrow> jsnum" where
  "dot a b =
     (case (a, b) of
        ((ax, ay, az), (bx, by, bz)) \<Rightarrow> jadd (jadd (jmul ax bx) (jmul ay by)) (jmul az bz))"

definition vlength :: "vec3 \<Rightarrow> jsnum" where
  "vlength a = jsqrt (dot a a)"

definition multiplyScalar :: "vec3 \<Rightarrow> jsnum \<Rightarrow> vec3" where
  "multiplyScalar a s = (case a of (ax, ay, az) \<Rightarrow> (jmul ax s, jmul ay s, jmul az s))"

definition vadd :: "vec3 \<Rightarrow> vec3 \<Rightarrow> vec3" where
  "vadd a b =
     (case (a, b) of ((ax, ay, az), (bx, by, bz)) \<Rightarrow> (jadd ax bx, jadd ay by, jadd az bz))"

definition normalize :: "vec3 \<Rightarrow> vec3" where
  "normalize a =
     (let l = vlength a;
          s = (if l = NaN \<or> l = Fin 0 then Fin 1 else l)
      in multiplyScalar a (jdiv (Fin 1) s))"

definition lonLatToVec3 :: "jsnum \<Rightarrow> jsnum \<Rightarrow> jsnum \<Rightarrow> vec3" where
  "lonLatToVec3 lo la r =
     (let ph = degToRad la;
          lm = degToRad lo
      in (jmul (jmul r (jcos ph)) (jsin lm),
          jmul r (jsin ph),
          jmul (jmul r (jcos ph)) (jcos lm)))"

text \<open>
  What the loop needs of the scene: the camera direction, the camera's projection of a
  world point to normalised device coordinates (\<open>Vector3.project\<close>, a parameter of the
  model), the renderer's size and the size of the trail canvas.
\<close>

record view =
  camDir :: vec3
  project :: "vec3 \<Rightarrow> vec3"
  rendererSize :: "jsnum \<times> jsnum"
  canvasWidth :: nat
  canvasHeight :: nat

datatype overlayMode = Wind | Temperature | NoOverlay

definition worldToScreen :: "view \<Rightarrow> vec3 \<Rightarrow> xy option" where
  "worldToScreen cam p =
     (case project cam p of
        (vx, vy, vz) \<Rightarrow>
          if jgt vz (Fin 1) then None
          else Some (jmul (jadd (jmul vx (Fin (1 / 2))) (Fin (1 / 2))) (fst (rendererSize cam)),
                     jmul (jadd (jmul (jneg vy) (Fin (1 / 2))) (Fin (1 / 2)))
                       (snd (rendererSize cam))))"

definition trailColor :: "overlayMode \<Rightarrow> jsnum \<Rightarrow> jsnum \<Rightarrow> string" where
  "trailColor mode uu vv =
     (if mode = Temperature then ''rgba(255,255,255,0.9)'' else ''rgba(255,255,255,0.7)'')"

text \<open>\<open>Math.hypot\<close> of two arguments: an infinite argument wins over a \<open>NaN\<close>.\<close>

definition jhypot :: "jsnum \<Rightarrow> jsnum \<Rightarrow> jsnum" where
  "jhypot a b =
     (if a = PInf \<or> a = NInf \<or> b = PInf \<or> b = NInf then PInf
      else jsqrt (jadd (jmul a a) (jmul b b)))"

text \<open>A stroked trail segment: the canvas state it is drawn with and its two ends.\<close>

record stroke =
  strokeStyle :: string
  globalAlpha :: jsnum
  moveTo :: xy
  lineTo :: xy

text \<open>
  The body of \<open>particles.forEach\<close> in \<open>updateParticles\<close>, for one particle \<open>p\<close> with its
  \<open>prevXY\<close> entry and the two draws a \<open>recycle\<close> would take. It returns the particle and the
  \<open>prevXY\<close> entry as stored afterwards, and the segment drawn, if any. The loop reads
  \<open>sx0\<close>, \<open>sy0\<close> from \<open>prevXY\<close> before the pole test, so the \<open>clearPrev\<close> of a pole crossing
  (\<open>prev1\<close> below) is overwritten by every path that follows it. The body is split in
  three: \<open>advect\<close> moves and ages the particle and tells whether it crossed a pole,
  \<open>drawTrail\<close> is the part after the age test, \<open>updateParticle\<close> is the whole.
\<close>

definition advect :: "wind \<Rightarrow> particle \<Rightarrow> particle \<times> bool" where
  "advect w p =
     (let lon1 = jsub (jmod (jadd (jadd (lon p)
                   (jdiv (jmul (u w) SPEED_FACTOR) (jcos (degToRad (lat p))))) (Fin 180))
                   (Fin 360)) (Fin 180);
          lat1 = jadd (lat p) (jmul (v w) SPEED_FACTOR);
          crossed = (jgt lat1 (Fin 90) \<or> jlt lat1 (Fin (- 90)));
          lat2 = (if crossed then clamp lat1 (Fin (- 89999 / 1000)) (Fin (89999 / 1000))
                  else lat1);
          lon2 = (if crossed then jsub (jmod (jadd lon1 (Fin 180)) (Fin 360)) (Fin 180)
                  else lon1)
      in (\<lparr> lon = lon2, lat = lat2, age = jadd (age p) (Fin 1) \<rparr>, crossed))"

definition trailAlpha :: "particle \<Rightarrow> jsnum" where
  "trailAlpha p =
     jmin (Fin 1)
       (jadd (Fin (1 / 10))
          (jmul (jdiv (jsub PARTICLE_LIFE (age p)) PARTICLE_LIFE) (Fin (9 / 10))))"

definition drawTrail ::
  "view \<Rightarrow> overlayMode \<Rightarrow> wind \<Rightarrow> jsnum \<Rightarrow> jsnum \<Rightarrow> xy \<Rightarrow> particle \<Rightarrow> xy \<times> stroke option"
where
  "drawTrail cam mode w prevLon prevLat prev0 p =
     (let sx0 = fst prev0;
          sy0 = snd prev0;
          worldPos = lonLatToVec3 (lon p) (lat p) (jadd GLOBE_RADIUS (Fin (1 / 2)));
          prevWorldPos = lonLatToVec3 prevLon prevLat (jadd GLOBE_RADIUS (Fin (1 / 2)));
          visibleNow = jgt (dot (normalize worldPos) (camDir cam)) (Fin 0);
          visiblePrev = jgt (dot (normalize prevWorldPos) (camDir cam)) (Fin 0);
          sMin = jmul (Fin (real (min (canvasWidth cam) (canvasHeight cam)))) (Fin (4 / 10))
      in if \<not> visibleNow \<or> \<not> visiblePrev then (clearPrev, None)
         else case worldToScreen cam worldPos of
                None \<Rightarrow> (clearPrev, None)
              | Some (sx1, sy1) \<Rightarrow>
                  ((sx1, sy1),
                   if \<not> isNaN sx0 \<and> jle (jhypot (jsub sx1 sx0) (jsub sy1 sy0)) sMin
                   then Some \<lparr> strokeStyle = trailColor mode (u w) (v w),
                               globalAlpha = trailAlpha p,
                               moveTo = (sx0, sy0),
                               lineTo = (sx1, sy1) \<rparr>
                   else None))"

definition updateParticle ::
  "GridMeta \<Rightarrow> jsnum list \<Rightarrow> jsnum list \<Rightarrow> view \<Rightarrow> overlayMode \<Rightarrow> real \<times> real \<Rightarrow>
     particle \<times> xy \<Rightarrow> (particle \<times> xy) \<times> stroke option"
where
  "updateParticle g Us Vs cam mode r pp =
     (let p = fst pp;
          prev0 = snd pp;
          w = windAt g Us Vs (lon p) (lat p)
      in if \<not> isFinite (u w) \<or> \<not> isFinite (v w) then (recycle (fst r) (snd r), None)
         else
           let p1 = fst (advect w p);
               prev1 = (if snd (advect w p) then clearPrev else prev0)
           in if jgt (age p1) PARTICLE_LIFE then (recycle (fst r) (snd r), None)
              else
                let d = drawTrail cam mode w (lon p) (lat p) prev0 p1
                in ((p1, fst d), snd d))"

text \<open>
  \<open>updateParticles\<close>: the loop over the population, each particle paired with its
  \<open>prevXY\<close> entry; \<open>rnd k\<close> holds the draws for particle \<open>k\<close>. It returns the new population
  and the segments drawn, in order.
\<close>

fun updateParticles ::
  "GridMeta \<Rightarrow> jsnum list \<Rightarrow> jsnum list \<Rightarrow> view \<Rightarrow> overlayMode \<Rightarrow> (nat \<Rightarrow> real \<times> real) \<Rightarrow>
     nat \<Rightarrow> (particle \<times> xy) list \<Rightarrow> (particle \<times> xy) list \<times> stroke list"
where
  "updateParticles g Us Vs cam mode rnd k [] = ([], [])"
| "updateParticles g Us Vs cam mode rnd k (pp # pps) =
     (let r = updateParticle g Us Vs cam mode (rnd k) pp;
          rest = updateParticles g Us Vs cam mode rnd (Suc k) pps
      in (fst r # fst rest,
          (case snd r of None \<Rightarrow> snd rest | Some s \<Rightarrow> s # snd rest)))"

section \<open>The temperature colour scale\<close>

text \<open>
  \<open>tempColorScale\<close> returns at once on a non-finite input; past that guard every value
  is finite, and the steps are written on the reals: the Kelvin test, the clamp, the
  normalised \<open>t\<close> and the eleven segments of the ramp.
\<close>

definition tempC :: "real \<Rightarrow> real" where
  "tempC tempValue = (if tempValue > 100 then tempValue - 27315 / 100 else tempValue)"

definition clampedTemp :: "real \<Rightarrow> real" where
  "clampedTemp tempValue = max (- 80) (min 50 (tempC tempValue))"

definition tempNorm :: "real \<Rightarrow> real" where
  "tempNorm tempValue = (clampedTemp tempValue - (- 80)) / (50 - (- 80))"

text \<open>\<open>Math.round\<close>: the nearest integer, a tie going up.\<close>

definition mround :: "real \<Rightarrow> int" where
  "mround a = \<lfloor>a + 1 / 2\<rfloor>"

definition tempRamp :: "real \<Rightarrow> int \<times> int \<times> int" where
  "tempRamp t =
     (if t < 10 / 100 then
        (let scale = t / (10 / 100)
         in (mround (80 + scale * 30), mround (20 + scale * 40), mround (120 + scale * 60)))
      else if t < 25 / 100 then
        (let scale = (t - 10 / 100) / (15 / 100)
         in (mround (110 * (1 - scale) + 50 * scale),
             mround (60 * (1 - scale) + 120 * scale),
             mround (180 * (1 - scale) + 220 * scale)))
      else if t < 40 / 100 then
        (let scale = (t - 25 / 100) / (15 / 100)
         in (mround (50 * (1 - scale) + 80 * scale),
             mround (120 * (1 - scale) + 180 * scale),
             mround (220 * (1 - scale) + 240 * scale)))
      else if t < 50 / 100 then
        (let scale = (t - 40 / 100) / (10 / 100)
         in (mround (80 * (1 - scale) + 100 * scale),
             mround (180 * (1 - scale) + 220 * scale),
             mround (240 * (1 - scale) + 240 * scale)))
      else if t < 60 / 100 then
        (let scale = (t - 50 / 100) / (10 / 100)
         in (mround (100 * (1 - scale) + 160 * scale),
             mround (220 * (1 - scale) + 240 * scale),
             mround (240 * (1 - scale) + 180 * scale)))
      else if t < 70 / 100 then
        (let scale = (t - 60 / 100) / (10 / 100)
         in (mround (160 * (1 - scale) + 220 * scale),
             mround (240 * (1 - scale) + 250 * scale),
             mround (180 * (1 - scale) + 120 * scale)))
      else if t < 78 / 100 then
        (let scale = (t - 70 / 100) / (8 / 100)
         in (mround (220 * (1 - scale) + 255 * scale),
             mround (250 * (1 - scale) + 240 * scale),
             mround (120 * (1 - scale) + 60 * scale)))
      else if t < 86 / 100 then
        (let scale = (t - 78 / 100) / (8 / 100)
         in (mround 255,
             mround (240 * (1 - scale) + 160 * scale),
             mround (60 * (1 - scale) + 20 * scale)))
      else if t < 93 / 100 then
        (let scale = (t - 86 / 100) / (7 / 100)
         in (mround (255 * (1 - scale) + 250 * scale),
             mround (160 * (1 - scale) + 80 * scale),
             mround (20 * (1 - scale) + 15 * scale)))
      else if t < 97 / 100 then
        (let scale = (t - 93 / 100) / (4 / 100)
         in (mround (250 * (1 - scale) + 220 * scale),
             mround (80 * (1 - scale) + 30 * scale),
             mround (15 * (1 - scale) + 10 * scale)))
      else
        (let scale = (t - 97 / 100) / (3 / 100)
         in (mround (220 * (1 - scale) + 180 * scale),
             mround (30 * (1 - scale) + 10 * scale),
             mround (10 * (1 - scale) + 5 * scale))))"

type_synonym rgba = "jsnum \<times> jsnum \<times> jsnum \<times> jsnum"

definition tempColorScale :: "jsnum \<Rightarrow> jsnum \<Rightarrow> rgba" where
  "tempColorScale tempValue alpha =
     (case tempValue of
        Fin tv \<Rightarrow>
          (case tempRamp (tempNorm tv) of
             (r, g, b) \<Rightarrow>
               (Fin (of_int r), Fin (of_int g), Fin (of_int b), jfloor (jmul alpha (Fin 255))))
      | NaN \<Rightarrow> (Fin 0, Fin 0, Fin 0, Fin 0)
      | PInf \<Rightarrow> (Fin 0, Fin 0, Fin 0, Fin 0)
      | NInf \<Rightarrow> (Fin 0, Fin 0, Fin 0, Fin 0))"

section \<open>Loading the levels\<close>

text \<open>
  The loaders work on the parsed JSON of the files the manifest lists; fetching is outside
  the model. A wind file is an array whose entries 0 and 1 are the V and the U record; an
  entry may be absent or \<open>null\<close>. In a record the \<open>header\<close> may be absent, and so may the
  \<open>data\<close> array (\<open>None\<close> also stands for a \<open>data\<close> that is no array). A data array holds
  numbers and \<open>null\<close>s.
\<close>

record WindHeader = GridMeta +
  surface1Type :: jsnum
  surface1Value :: jsnum

record WindObj =
  header :: "WindHeader option"
  data :: "jsnum option list option"

datatype error = TypeError

text \<open>
  A label is the template string \<open>`${surface1Value} m`\<close> or \<open>`${surface1Value} hPa`\<close>, kept
  as the number and the suffix.
\<close>

record labelled =
  label :: "jsnum \<times> string"

record level = labelled +
  V :: "jsnum list"
  U :: "jsnum list"
  S :: "jsnum list"

record tempLevel = labelled +
  T :: "jsnum list"

definition entry :: "'a option list \<Rightarrow> nat \<Rightarrow> 'a option" where
  "entry xs k = (if k < length xs then xs ! k else None)"

definition to32 :: "jsnum option list \<Rightarrow> jsnum list" where
  "to32 d = map (\<lambda>x. case x of None \<Rightarrow> NaN | Some y \<Rightarrow> y) d"

definition levelLabel :: "WindHeader \<Rightarrow> jsnum \<times> string" where
  "levelLabel h =
     (if surface1Type h = Fin 103 then (surface1Value h, '' m'') else (surface1Value h, '' hPa''))"

definition speedField :: "jsnum list \<Rightarrow> jsnum list \<Rightarrow> jsnum list" where
  "speedField us vs =
     map (\<lambda>j. let a = aget us (Fin (real j));
                   b = aget vs (Fin (real j))
               in if isFinite a \<and> isFinite b then jsqrt (jadd (jmul a a) (jmul b b)) else NaN)
       [0..<length us]"

definition windLevel :: "WindHeader \<Rightarrow> jsnum option list \<Rightarrow> jsnum option list \<Rightarrow> level" where
  "windLevel h vd ud =
     \<lparr> label = levelLabel h,
       V = to32 vd,
       U = to32 ud,
       S = speedField (to32 ud) (to32 vd) \<rparr>"

definition metaOf :: "WindHeader \<Rightarrow> GridMeta" where
  "metaOf h = \<lparr> nx = nx h, ny = ny h, lo1 = lo1 h, la1 = la1 h, dx = dx h, dy = dy h \<rparr>"

text \<open>
  The loop of the wind loader over the files, from the \<open>gridMeta\<close> reference and the list
  \<open>next\<close> built so far. Its result is what \<open>gridMeta.current\<close> holds at the end and, on
  the right, the list that \<open>setLevels\<close> receives. The loop has no \<open>try\<close>: destructuring an
  absent \<open>vObj.header\<close>, or calling \<open>map\<close> on an absent \<open>uObj.data\<close> or \<open>vObj.data\<close>, raises
  a \<open>TypeError\<close>, the promise is rejected and \<open>setLevels\<close> is never called: the result on
  the left.
\<close>

fun loadWind ::
  "GridMeta option \<Rightarrow> level list \<Rightarrow> WindObj option list list \<Rightarrow>
     GridMeta option \<times> (error + level list)"
where
  "loadWind gm acc [] = (gm, Inr acc)"
| "loadWind gm acc (uv # files) =
     (case entry uv 0 of
        None \<Rightarrow> loadWind gm acc files
      | Some vObj \<Rightarrow>
          (case entry uv 1 of
             None \<Rightarrow> loadWind gm acc files
           | Some uObj \<Rightarrow>
               (case header vObj of
                  None \<Rightarrow> (gm, Inl TypeError)
                | Some h \<Rightarrow>
                    (case data uObj of
                       None \<Rightarrow>
                         (case gm of None \<Rightarrow> Some (metaOf h) | Some m \<Rightarrow> Some m, Inl TypeError)
                     | Some ud \<Rightarrow>
                         (case data vObj of
                            None \<Rightarrow>
                              (case gm of None \<Rightarrow> Some (metaOf h) | Some m \<Rightarrow> Some m,
                               Inl TypeError)
                          | Some vd \<Rightarrow>
                              loadWind (case gm of None \<Rightarrow> Some (metaOf h) | Some m \<Rightarrow> Some m)
                                (acc @ [windLevel h vd ud]) files)))))"

text \<open>
  A temperature file is one object, possibly \<open>null\<close>, whose \<open>header\<close> and \<open>data\<close> may be
  absent. The body of this loop is inside a \<open>try\<close> whose handler goes on to the next
  file, so a \<open>data\<close> that is no array, on which \<open>map\<close> raises, is skipped like an absent
  one.
\<close>

datatype tempObj = TempObj "WindHeader option" "jsnum option list option"

fun loadTemp ::
  "GridMeta option \<Rightarrow> tempLevel list \<Rightarrow> tempObj option list \<Rightarrow> GridMeta option \<times> tempLevel list"
where
  "loadTemp gm acc [] = (gm, acc)"
| "loadTemp gm acc (None # files) = loadTemp gm acc files"
| "loadTemp gm acc (Some (TempObj None d) # files) = loadTemp gm acc files"
| "loadTemp gm acc (Some (TempObj (Some h) None) # files) = loadTemp gm acc files"
| "loadTemp gm acc (Some (TempObj (Some h) (Some d)) # files) =
     loadTemp (case gm of None \<Rightarrow> Some (metaOf h) | Some m \<Rightarrow> Some m)
       (acc @ [\<lparr> label = levelLabel h, T = to32 d \<rparr>]) files"

text \<open>
  What one file contributes to the list of levels: a wind file gives a level when both of
  its records are there with the header and the data arrays the loop reads, a temperature
  file when the object, its header and its data are there. A wind file is \<open>incomplete\<close>
  when both records are there and the header of the V record or one of the data arrays
  is absent.
\<close>

definition windLevelOf :: "WindObj option list \<Rightarrow> level option" where
  "windLevelOf uv =
     (case entry uv 0 of
        None \<Rightarrow> None
      | Some vObj \<Rightarrow>
          (case entry uv 1 of
             None \<Rightarrow> None
           | Some uObj \<Rightarrow>
               (case header vObj of
                  None \<Rightarrow> None
                | Some h \<Rightarrow>
                    (case data uObj of
                       None \<Rightarrow> None
                     | Some ud \<Rightarrow>
                         (case data vObj of
                            None \<Rightarrow> None
                          | Some vd \<Rightarrow> Some (windLevel h vd ud))))))"

definition incomplete :: "WindObj option list \<Rightarrow> bool" where
  "incomplete uv =
     (case entry uv 0 of
        None \<Rightarrow> False
      | Some vObj \<Rightarrow>
          (case entry uv 1 of
             None \<Rightarrow> False
           | Some uObj \<Rightarrow> header vObj = None \<or> data uObj = None \<or> data vObj = None))"

fun tempLevelOf :: "tempObj option \<Rightarrow> tempLevel option" where
  "tempLevelOf (Some (TempObj (Some h) (Some d))) = Some \<lparr> label = levelLabel h, T = to32 d \<rparr>"
| "tempLevelOf (Some (TempObj (Some h) None)) = None"
| "tempLevelOf (Some (TempObj None d)) = None"
| "tempLevelOf None = None"

text \<open>A wind file whose header is malformed in each of the three ways.\<close>

definition badHeader :: WindHeader where
  "badHeader =
     \<lparr> nx = Fin 1, ny = Fin 2, lo1 = Fin 0, la1 = Fin 90, dx = Fin 0, dy = Fin 1,
       surface1Type = Fin 103, surface1Value = Fin 10 \<rparr>"

definition badObj :: WindObj where
  "badObj =
     \<lparr> header = Some badHeader, data = Some [Some (Fin 1), Some (Fin 2), Some (Fin 3)] \<rparr>"

section \<open>The overlay pass\<close>

text \<open>
  The ray test of \<open>renderAirModeOverlay\<close> for one sample: the discriminant of the
  ray-sphere quadratic, its nearer root \<open>t\<close>, the intersection point and the dot product
  of its normal with the camera direction.
\<close>

definition discriminant :: "vec3 \<Rightarrow> vec3 \<Rightarrow> jsnum" where
  "discriminant pos rd =
     (let a = dot rd rd;
          b = jmul (Fin 2) (dot pos rd);
          c = jsub (dot pos pos) (jmul GLOBE_RADIUS GLOBE_RADIUS)
      in jsub (jmul b b) (jmul (jmul (Fin 4) a) c))"

definition nearRoot :: "vec3 \<Rightarrow> vec3 \<Rightarrow> jsnum" where
  "nearRoot pos rd =
     (let a = dot rd rd;
          b = jmul (Fin 2) (dot pos rd)
      in jdiv (jsub (jneg b) (jsqrt (discriminant pos rd))) (jmul (Fin 2) a))"

definition intersectionPoint :: "vec3 \<Rightarrow> vec3 \<Rightarrow> vec3" where
  "intersectionPoint pos rd = vadd pos (multiplyScalar rd (nearRoot pos rd))"

definition facing :: "vec3 \<Rightarrow> vec3 \<Rightarrow> jsnum" where
  "facing pos rd = dot (normalize (intersectionPoint pos rd)) (normalize pos)"

definition sampleHit :: "vec3 \<Rightarrow> vec3 \<Rightarrow> vec3 option" where
  "sampleHit pos rd =
     (if jge (discriminant pos rd) (Fin 0) then
        if jgt (nearRoot pos rd) (Fin 0) then
          if jgt (facing pos rd) (Fin (1 / 10)) then Some (intersectionPoint pos rd) else None
        else None
      else None)"

text \<open>
  The image buffer is the byte array of \<open>createImageData\<close>, four bytes a pixel, all zero
  at first. A pixel value is the four bytes stored.
\<close>

type_synonym pixel = "nat \<times> nat \<times> nat \<times> nat"

definition writePixel :: "nat \<Rightarrow> nat \<Rightarrow> nat \<Rightarrow> pixel \<Rightarrow> nat list \<Rightarrow> nat list" where
  "writePixel width px py c buf =
     (case c of
        (r, g, b, a) \<Rightarrow>
          (let k = (py * width + px) * 4
           in buf[k := r, k + 1 := g, k + 2 := b, k + 3 := a]))"

definition pixelAt :: "nat \<Rightarrow> nat list \<Rightarrow> nat \<Rightarrow> nat \<Rightarrow> pixel" where
  "pixelAt width buf px py =
     (let k = (py * width + px) * 4 in (buf ! k, buf ! (k + 1), buf ! (k + 2), buf ! (k + 3)))"

text \<open>
  The two inner loops that copy a colour into the block of a sample:
  \<open>for (dx = 0; dx < step && x + dx < width; dx++)\<close> and the same for \<open>dy\<close>.
\<close>

definition paintBlock ::
  "nat \<Rightarrow> nat \<Rightarrow> nat \<Rightarrow> nat \<Rightarrow> nat \<Rightarrow> (nat \<Rightarrow> nat \<Rightarrow> pixel) \<Rightarrow> nat list \<Rightarrow> nat list"
where
  "paintBlock width height step x y col buf =
     fold (\<lambda>ox. fold (\<lambda>oy. writePixel width (x + ox) (y + oy) (col ox oy))
                    [0..<min step (height - y)])
       [0..<min step (width - x)] buf"

text \<open>
  What the pass takes from outside: the camera position, the normalised ray through each
  sample point (three.js \<open>unproject\<close>), and the colouring of a hit sample, which is the
  wind or the temperature branch of the source. \<open>shade x y q\<close> is \<open>None\<close> when that branch
  writes nothing for the sample at \<open>(x, y)\<close> with intersection point \<open>q\<close>, and else gives the
  bytes it stores at each offset of the block.
\<close>

record overlayScene =
  camPos :: vec3
  rayDirection :: "nat \<Rightarrow> nat \<Rightarrow> vec3"
  shade :: "nat \<Rightarrow> nat \<Rightarrow> vec3 \<Rightarrow> (nat \<Rightarrow> nat \<Rightarrow> pixel) option"

definition baseStep :: "overlayMode \<Rightarrow> nat \<Rightarrow> nat \<Rightarrow> nat" where
  "baseStep mode width height =
     (if mode = Temperature then max 1 (min width height div 800)
      else max 1 (min width height div 600))"

definition renderSample ::
  "overlayScene \<Rightarrow> nat \<Rightarrow> nat \<Rightarrow> nat \<Rightarrow> nat \<Rightarrow> nat \<Rightarrow> nat list \<Rightarrow> nat list"
where
  "renderSample sc width height step x y buf =
     (case sampleHit (camPos sc) (rayDirection sc x y) of
        None \<Rightarrow> buf
      | Some q \<Rightarrow>
          (case shade sc x y q of
             None \<Rightarrow> buf
           | Some col \<Rightarrow> paintBlock width height step x y col buf))"

text \<open>
  The pass: \<open>x\<close> and \<open>y\<close> run over the multiples of \<open>step\<close> below the width and the
  height. The result is \<open>None\<close> when the guard at the top returns without drawing.
\<close>

definition samples :: "nat \<Rightarrow> nat \<Rightarrow> nat list" where
  "samples step n = filter (\<lambda>x. x mod step = 0) [0..<n]"

definition renderAirModeOverlay ::
  "bool \<Rightarrow> overlayMode \<Rightarrow> bool \<Rightarrow> overlayScene \<Rightarrow> nat \<Rightarrow> nat \<Rightarrow> nat list option"
where
  "renderAirModeOverlay airModeEnabled mode isMoving sc width height =
     (if (\<not> airModeEnabled \<and> mode \<noteq> Temperature) \<or> isMoving then None
      else
        let step = baseStep mode width height
        in Some (fold (\<lambda>x. fold (\<lambda>y. renderSample sc width height step x y)
                                 (samples step height))
                   (samples step width) (replicate (width * height * 4) 0)))"

section \<open>Example grids\<close>

text \<open>
  The two-by-two grid of the specification's first scenario, with its \<open>U\<close> array and a
  copy of it that has one missing sample.
\<close>

definition grid22 :: GridMeta where
  "grid22 = \<lparr> nx = Fin 2, ny = Fin 2, lo1 = Fin 0, la1 = Fin 10, dx = Fin 10, dy = Fin 10 \<rparr>"

definition field22 :: "jsnum list" where
  "field22 = [Fin 0, Fin 10, Fin 0, Fin 10]"

definition holed22 :: "jsnum list" where
  "holed22 = [Fin 0, NaN, Fin 0, Fin 10]"

text \<open>A regional grid of ten columns whose first column is at 230 degrees east.\<close>

definition regional :: GridMeta where
  "regional = \<lparr> nx = Fin 10, ny = Fin 2, lo1 = Fin 230, la1 = Fin 10, dx = Fin 1, dy = Fin 1 \<rparr>"

text \<open>
  A grid of two columns and two rows that spans the globe, with a calm field and a field
  of a steady 125 m/s northward wind; and a view from the positive \<open>z\<close> axis whose
  projection scales \<open>x\<close> and \<open>y\<close> by 1/400.
\<close>

definition polar :: GridMeta where
  "polar = \<lparr> nx = Fin 2, ny = Fin 2, lo1 = Fin 0, la1 = Fin 90, dx = Fin 180, dy = Fin 180 \<rparr>"

definition calm :: "jsnum list" where
  "calm = [Fin 0, Fin 0, Fin 0, Fin 0]"

definition northward :: "jsnum list" where
  "northward = [Fin 125, Fin 125, Fin 125, Fin 125]"

definition frontView :: view where
  "frontView =
     \<lparr> camDir = (Fin 0, Fin 0, Fin 1),
       project = (\<lambda>p. case p of (a, b, c) \<Rightarrow> (jdiv a (Fin 400), jdiv b (Fin 400), Fin (1 / 2))),
       rendererSize = (Fin 800, Fin 600),
       canvasWidth = 800,
       canvasHeight = 600 \<rparr>"

text \<open>
  An overlay scene of two samples seen from \<open>(0, 0, 450)\<close>: the ray of the sample at
  \<open>x = 0\<close> runs along the \<open>x\<close> axis and misses the globe, the ray of the other one runs
  down the \<open>z\<close> axis and hits it; a hit block is painted with the bytes 9.
\<close>

definition demoScene :: overlayScene where
  "demoScene =
     \<lparr> camPos = (Fin 0, Fin 0, Fin 450),
       rayDirection = (\<lambda>x y. if x = 0 then (Fin 1, Fin 0, Fin 0) else (Fin 0, Fin 0, Fin (- 1))),
       shade = (\<lambda>x y q. Some (\<lambda>ox oy. (9, 9, 9, 9))) \<rparr>"

text \<open>
  An overlay scene on a canvas wide enough for blocks of two by two pixels: only the ray
  of the sample at the origin hits the globe, the ray through any other screen point runs
  along the \<open>x\<close> axis and misses it.
\<close>

definition wideScene :: overlayScene where
  "wideScene =
     \<lparr> camPos = (Fin 0, Fin 0, Fin 450),
       rayDirection =
         (\<lambda>x y. if x = 0 \<and> y = 0 then (Fin 0, Fin 0, Fin (- 1)) else (Fin 1, Fin 0, Fin 0)),
       shade = (\<lambda>x y q. Some (\<lambda>ox oy. (9, 9, 9, 9))) \<rparr>"

text \<open>
  The one-degree global grid, a field on it that is 7 everywhere but for one missing
  sample in row 89, column 199, and a longitude just west of the meridian of column 200.
\<close>

definition globe1 :: GridMeta where
  "globe1 = \<lparr> nx = Fin 360, ny = Fin 181, lo1 = Fin 0, la1 = Fin 90, dx = Fin 1, dy = Fin 1 \<rparr>"

definition gapField :: "jsnum list" where
  "gapField = (replicate 65160 (Fin 7))[32239 := NaN]"

definition edgeLon :: real where
  "edgeLon = - 160 - 1 / 2 ^ 45"

section \<open>Facts about the number model\<close>

lemma jadd_NaN_right [simp]: "jadd x NaN = NaN"
  by (cases x) simp_all

lemma jmul_NaN_right [simp]: "jmul x NaN = NaN"
  by (cases x) simp_all

lemma jsub_Fin [simp]: "jsub (Fin a) (Fin b) = Fin (a - b)"
  by (simp add: jsub_def)

lemma jsub_NaN_left [simp]: "jsub NaN y = NaN"
  by (simp add: jsub_def)

lemma jsub_NaN_right [simp]: "jsub x NaN = NaN"
  by (simp add: jsub_def)

lemma isFinite_iff: "isFinite x \<longleftrightarrow> (\<exists>a. x = Fin a)"
  by (cases x) simp_all

section \<open>Evaluating the sampler on the example grid\<close>



lemma gridI_grid22_0: "gridI grid22 (Fin 0) = Fin 0"
  by (simp add: gridI_def grid22_def normalizeLon_def Let_def fmod_def trunc_def jgt_def)

lemma gridJ_grid22_0: "gridJ grid22 (Fin 0) = Fin 1"
  by (simp add: gridJ_def grid22_def)

lemma gridJ_grid22_10: "gridJ grid22 (Fin 10) = Fin 0"
  by (simp add: gridJ_def grid22_def)

lemma neighbours_holed22:
  "neighbours grid22 holed22 (Fin 0) (Fin 0) = [Fin 0, NaN, Fin 0, Fin 10]"
  by (simp add: neighbours_def idx_def aget_def grid22_def holed22_def fmod_def trunc_def)

lemma neighbours_field22:
  "neighbours grid22 field22 (Fin 0) (Fin 0) = [Fin 0, Fin 10, Fin 0, Fin 10]"
  by (simp add: neighbours_def idx_def aget_def grid22_def field22_def fmod_def trunc_def)

lemma neighbours_field22_last_row:
  "neighbours grid22 field22 (Fin 1) (Fin 0) = [Fin 0, Fin 10, NaN, NaN]"
  by (simp add: neighbours_def idx_def aget_def grid22_def field22_def fmod_def trunc_def)

section \<open>Missing samples propagate\<close>

lemma blend_NaN:
  "g00 = NaN \<or> g10 = NaN \<or> g01 = NaN \<or> g11 = NaN \<Longrightarrow> blend g00 g10 g01 g11 fi fj = NaN"
  by (auto simp: blend_def)

lemma interp_NaN:
  "NaN \<in> set (neighbours g A j0 i0) \<Longrightarrow> interp g A j0 i0 fi fj = NaN"
  unfolding interp_def neighbours_def
  by (simp only: list.case list.set insert_iff empty_iff) (metis blend_NaN)



section \<open>Longitude wraparound\<close>

lemma floor360:
  "360 * of_int \<lfloor>r / 360\<rfloor> \<le> (r::real)" "r < 360 * of_int \<lfloor>r / 360\<rfloor> + 360"
proof -
  have a: "of_int \<lfloor>r / 360\<rfloor> \<le> r / 360" by (rule of_int_floor_le)
  have b: "r / 360 < of_int \<lfloor>r / 360\<rfloor> + 1" by (rule floor_less_one [THEN iffD1, of "r/360", simplified] | linarith)
  show "360 * of_int \<lfloor>r / 360\<rfloor> \<le> r" using a by linarith
  show "r < 360 * of_int \<lfloor>r / 360\<rfloor> + 360" using b by linarith
qed

lemma normalizeLon_Fin:
  "normalizeLon (Fin x) = Fin (x - 360 * of_int \<lfloor>(x + 180) / 360\<rfloor>)"
proof -
  define q where "q = \<lfloor>(x + 180) / 360\<rfloor>"
  have lo: "360 * of_int q \<le> x + 180" and hi: "x + 180 < 360 * of_int q + 360"
    unfolding q_def using floor360 [of "x + 180"] by simp_all
  show ?thesis
  proof (cases "0 \<le> x + 180")
    case True
    then have "trunc ((x + 180) / 360) = q" by (simp add: trunc_def q_def)
    then show ?thesis using lo hi
      by (simp add: normalizeLon_def Let_def fmod_def jgt_def q_def [symmetric])
  next
    case False
    show ?thesis
    proof (cases "(x + 180) / 360 = of_int q")
      case True
      then have "trunc ((x + 180) / 360) = q" by (simp add: trunc_def)
      then show ?thesis using lo hi True
        by (simp add: normalizeLon_def Let_def fmod_def jgt_def q_def [symmetric])
    next
      case ne: False
      then have "\<lceil>(x + 180) / 360\<rceil> = q + 1"
        by (simp add: ceiling_altdef q_def)
      then have t: "trunc ((x + 180) / 360) = q + 1" using False by (simp add: trunc_def)
      have "360 * of_int q \<noteq> x + 180" using ne by auto
      then show ?thesis using lo hi t
        by (simp add: normalizeLon_def Let_def fmod_def jgt_def q_def [symmetric])
    qed
  qed
qed

lemma normalizeLon_period: "normalizeLon (Fin (x + 360)) = normalizeLon (Fin x)"
proof -
  have "(x + 360 + 180) / 360 = (x + 180) / 360 + 1" by simp
  then have "\<lfloor>(x + 360 + 180) / 360\<rfloor> = \<lfloor>(x + 180) / 360 + 1\<rfloor>" by (rule arg_cong)
  then have "\<lfloor>(x + 360 + 180) / 360\<rfloor> = \<lfloor>(x + 180) / 360\<rfloor> + 1"
    by (simp only: one_add_floor)
  then show ?thesis by (simp add: normalizeLon_Fin)
qed

lemma normalizeLon_range:
  "\<exists>y. normalizeLon (Fin x) = Fin y \<and> - 180 \<le> y \<and> y < 180"
proof -
  have "360 * of_int \<lfloor>(x + 180) / 360\<rfloor> \<le> x + 180" "x + 180 < 360 * of_int \<lfloor>(x + 180) / 360\<rfloor> + 360"
    using floor360 [of "x + 180"] by simp_all
  then show ?thesis by (simp add: normalizeLon_Fin)
qed

section \<open>Sampling on a grid point\<close>

lemma blend_on_grid:
  "isFinite g00 \<Longrightarrow> isFinite g10 \<Longrightarrow> isFinite g01 \<Longrightarrow> isFinite g11 \<Longrightarrow>
   blend g00 g10 g01 g11 (Fin 0) (Fin 0) = g00"
  by (auto simp: isFinite_iff blend_def)

lemma interp_on_grid:
  "\<forall>x \<in> set (neighbours g A j0 i0). isFinite x \<Longrightarrow>
   interp g A j0 i0 (Fin 0) (Fin 0) = aget A (idx g j0 i0)"
  by (simp add: interp_def neighbours_def blend_on_grid)

lemma aget_finite:
  assumes "isFinite (aget A k)"
  shows "\<exists>n<length A. k = Fin (real n) \<and> aget A k = A ! n"
proof (cases k)
  case (Fin r)
  with assms have r: "r = of_int \<lfloor>r\<rfloor>" "0 \<le> r" "r < real (length A)"
    by (auto simp: aget_def split: if_splits)
  then have "0 \<le> \<lfloor>r\<rfloor>" by simp
  then have "real (nat \<lfloor>r\<rfloor>) = r" using r(1) by simp
  moreover from this have "nat \<lfloor>r\<rfloor> < length A" using r(3) by linarith
  moreover have "aget A k = A ! nat \<lfloor>r\<rfloor>" using Fin r by (simp add: aget_def)
  ultimately show ?thesis using Fin by auto
qed (use assms in \<open>simp_all add: aget_def\<close>)

section \<open>Rows outside the grid\<close>

lemma fmod_int:
  assumes "0 \<le> p" and "0 < n"
  shows "fmod (of_int p) (of_int n) = of_int (p mod n)"
proof -
  have "(0::real) \<le> of_int p / of_int n" using assms by simp
  then have "trunc (of_int p / of_int n) = p div n"
    by (simp add: trunc_def floor_divide_of_int_eq)
  then have "fmod (of_int p) (of_int n) = of_int (p - n * (p div n))"
    by (simp add: fmod_def)
  then show ?thesis by (simp add: minus_mult_div_eq_mod)
qed

lemma idx_int:
  assumes "nx g = Fin (of_int n)" and "0 < n" and "- n \<le> c"
  shows "idx g (Fin (of_int r)) (Fin (of_int c)) = Fin (of_int (r * n + (c + n) mod n))"
proof -
  have "fmod (of_int c + of_int n) (of_int n) = of_int ((c + n) mod n)"
    using fmod_int [of "c + n" n] assms by simp
  then show ?thesis using assms by (simp add: idx_def)
qed

lemma aget_row_outside:
  assumes len: "int (length A) = n * m" and n: "0 < n"
    and r: "r < 0 \<or> m \<le> r" and k: "0 \<le> k" "k < n"
  shows "aget A (Fin (of_int (r * n + k))) = NaN"
proof -
  have "r * n + k < 0 \<or> int (length A) \<le> r * n + k"
  proof (rule disjE [OF r])
    assume "r < 0"
    then have "r * n \<le> (- 1) * n" using n by (intro mult_right_mono) simp_all
    then show ?thesis using k by simp
  next
    assume "m \<le> r"
    then have "m * n \<le> r * n" using n by (intro mult_right_mono) simp_all
    moreover have "n * m = m * n" by simp
    ultimately have "int (length A) \<le> r * n + k" using k len by linarith
    then show ?thesis ..
  qed
  then have "(of_int (r * n + k) :: real) < 0 \<or> real (length A) \<le> of_int (r * n + k)"
    by (metis of_int_less_0_iff of_int_le_iff of_int_of_nat_eq)
  then show ?thesis by (auto simp: aget_def)
qed

lemma neighbours_row_outside:
  assumes nx: "nx g = Fin (of_int n)" and n: "0 < n" and len: "int (length A) = n * m"
    and c: "- n \<le> c" and out: "r < 0 \<or> m - 1 < r + 1"
  shows "NaN \<in> set (neighbours g A (Fin (of_int r)) (Fin (of_int c)))"
proof -
  have k: "0 \<le> (c + n) mod n" "(c + n) mod n < n" using n by simp_all
  have r1: "Fin (of_int r) = Fin (of_int r)" ..
  have j1: "jadd (Fin (of_int r)) (Fin 1) = Fin (of_int (r + 1))" by simp
  show ?thesis
  proof (cases "r < 0")
    case True
    then have "aget A (idx g (Fin (of_int r)) (Fin (of_int c))) = NaN"
      using idx_int [OF nx n c, of r] aget_row_outside [OF len n _ k, of r] by simp
    then show ?thesis by (simp add: neighbours_def)
  next
    case False
    with out have "m \<le> r + 1" by simp
    then have "aget A (idx g (Fin (of_int (r + 1))) (Fin (of_int c))) = NaN"
      using idx_int [OF nx n c, of "r + 1"] aget_row_outside [OF len n _ k, of "r + 1"] by simp
    then show ?thesis unfolding neighbours_def j1 by simp
  qed
qed

lemma gridI_nonneg:
  assumes "lo1 g = Fin l" and "l \<le> 180" and "dx g = Fin d" and "0 < d"
  shows "\<exists>i. gridI g (Fin x) = Fin i \<and> 0 \<le> i"
proof -
  obtain y where y: "normalizeLon (Fin x) = Fin y" "- 180 \<le> y"
    using normalizeLon_range by blast
  define a where "a = y - l + 360"
  have a: "0 \<le> a" using y(2) assms(2) by (simp add: a_def)
  then have "trunc (a / 360) = \<lfloor>a / 360\<rfloor>" by (simp add: trunc_def)
  then have "0 \<le> fmod a 360" using floor360 (1) [of a] by (simp add: fmod_def)
  then have "0 \<le> fmod a 360 / d" using assms(4) by simp
  then show ?thesis using y(1) assms(1,3,4) by (simp add: gridI_def a_def)
qed

text \<open>
  Where the column is at least \<open>-nx\<close> the remainder in \<open>idx\<close> is not negative, the row is
  left as it is, and a row outside \<open>[0, ny - 1]\<close> gives \<open>NaN\<close> for both components.
\<close>

lemma windAt_row_outside_wrapped:
  assumes "nx g = Fin (of_int n)" and "1 \<le> n" and "ny g = Fin (of_int m)"
    and "int (length Us) = n * m" and "int (length Vs) = n * m"
    and "gridI g lo = Fin i" and "- n \<le> \<lfloor>i\<rfloor>"
    and "gridJ g la = Fin j" and "\<lfloor>j\<rfloor> < 0 \<or> m - 1 < \<lfloor>j\<rfloor> + 1"
  shows "(\<forall>r c. - n \<le> c \<longrightarrow>
            idx g (Fin (of_int r)) (Fin (of_int c)) = Fin (of_int (r * n + (c + n) mod n))) \<and>
         u (windAt g Us Vs lo la) = NaN \<and> v (windAt g Us Vs lo la) = NaN"
proof -
  have n: "0 < n" using assms(2) by simp
  have a: "NaN \<in> set (neighbours g Us (Fin (of_int \<lfloor>j\<rfloor>)) (Fin (of_int \<lfloor>i\<rfloor>)))"
    by (rule neighbours_row_outside [OF assms(1) n assms(4) assms(7) assms(9)])
  have b: "NaN \<in> set (neighbours g Vs (Fin (of_int \<lfloor>j\<rfloor>)) (Fin (of_int \<lfloor>i\<rfloor>)))"
    by (rule neighbours_row_outside [OF assms(1) n assms(5) assms(7) assms(9)])
  have "u (windAt g Us Vs lo la) = NaN" "v (windAt g Us Vs lo la) = NaN"
    using a b assms(6,8) by (simp_all add: windAt_def Let_def interp_NaN)
  then show ?thesis using idx_int [OF assms(1) n] by simp
qed


section \<open>The temperature colour of 300 K\<close>

lemma tempNorm_300: "tempNorm 300 = 2137 / 2600"
  by (simp add: tempNorm_def clampedTemp_def tempC_def)

lemma tempRamp_300: "tempRamp (2137 / 2600) = (255, 198, 39)"
  by (simp add: tempRamp_def Let_def mround_def)

lemma tempColorScale_300:
  "tempColorScale (Fin 300) al = (Fin 255, Fin 198, Fin 39, jfloor (jmul al (Fin 255)))"
  by (simp add: tempColorScale_def tempNorm_300 tempRamp_300)

lemma tempColorScale_not_finite:
  "\<not> isFinite y \<Longrightarrow> tempColorScale y al = (Fin 0, Fin 0, Fin 0, Fin 0)"
  by (cases y) (simp_all add: tempColorScale_def)

section \<open>The latitude of a particle\<close>

lemma blend_fj_NaN: "blend g00 g10 g01 g11 fi NaN = NaN"
  by (simp add: blend_def)

lemma jsub_floor_not_finite: "\<not> isFinite j \<Longrightarrow> jsub j (jfloor j) = NaN"
  by (cases j) (simp_all add: jsub_def)

lemma jsub_not_finite: "\<not> isFinite b \<Longrightarrow> \<not> isFinite (jsub a b)"
  by (cases a; cases b) (simp_all add: jsub_def)

lemma jdiv_not_finite: "\<not> isFinite a \<Longrightarrow> \<not> isFinite (jdiv a b)"
  by (cases a; cases b) simp_all

lemma gridJ_not_finite: "\<not> isFinite la \<Longrightarrow> \<not> isFinite (gridJ g la)"
  by (simp add: gridJ_def jdiv_not_finite jsub_not_finite)

lemma interp_fj_NaN: "interp g A j0 i0 fi NaN = NaN"
  by (simp add: interp_def neighbours_def blend_fj_NaN)

lemma windAt_finite_lat:
  assumes "isFinite (v (windAt g Us Vs lo la))"
  shows "isFinite la"
proof (rule ccontr)
  assume "\<not> isFinite la"
  then have "jsub (gridJ g la) (jfloor (gridJ g la)) = NaN"
    by (intro jsub_floor_not_finite gridJ_not_finite)
  then have "v (windAt g Us Vs lo la) = NaN"
    by (simp add: windAt_def Let_def interp_fj_NaN)
  with assms show False by simp
qed

lemma advect_lat:
  assumes "lat p = Fin y" and "v w = Fin b"
  shows "lat (fst (advect w p)) =
           Fin (if 90 < y + b * (8 / 1000) then 89999 / 1000
                else if y + b * (8 / 1000) < - 90 then - (89999 / 1000)
                else y + b * (8 / 1000))"
  using assms
  by (simp add: advect_def Let_def SPEED_FACTOR_def jgt_def clamp_def jmax_def jmin_def)

lemma advect_age: "age (fst (advect w p)) = jadd (age p) (Fin 1)"
  by (simp add: advect_def Let_def)

lemma recycle_eq:
  "recycle r1 r2 = (\<lparr> lon = Fin (r1 * 360 - 180), lat = Fin (r2 * 180 - 90), age = Fin 0 \<rparr>, (NaN, NaN))"
  by (simp add: recycle_def clearPrev_def)

lemma updateParticle_cases:
  "updateParticle g Us Vs cam mode r pp =
     (let w = windAt g Us Vs (lon (fst pp)) (lat (fst pp)) in
      if \<not> isFinite (u w) \<or> \<not> isFinite (v w) \<or>
         jgt (jadd (age (fst pp)) (Fin 1)) PARTICLE_LIFE
      then (recycle (fst r) (snd r), None)
      else ((fst (advect w (fst pp)),
             fst (drawTrail cam mode w (lon (fst pp)) (lat (fst pp)) (snd pp)
                    (fst (advect w (fst pp))))),
            snd (drawTrail cam mode w (lon (fst pp)) (lat (fst pp)) (snd pp)
                    (fst (advect w (fst pp))))))"
  by (simp add: updateParticle_def Let_def advect_age)

lemma updateParticle_lat:
  assumes "0 \<le> snd r" and "snd r < 1"
  shows "\<exists>y. lat (fst (fst (updateParticle g Us Vs cam mode r pp))) = Fin y \<and> - 90 \<le> y \<and> y \<le> 90"
proof -
  define w where "w = windAt g Us Vs (lon (fst pp)) (lat (fst pp))"
  show ?thesis
  proof (cases "\<not> isFinite (u w) \<or> \<not> isFinite (v w) \<or>
         jgt (jadd (age (fst pp)) (Fin 1)) PARTICLE_LIFE")
    case True
    then have "updateParticle g Us Vs cam mode r pp = (recycle (fst r) (snd r), None)"
      unfolding updateParticle_cases w_def [symmetric] Let_def by simp
    then show ?thesis using assms by (simp add: recycle_eq)
  next
    case False
    then have fin: "isFinite (v w)" by simp
    then obtain b where b: "v w = Fin b" by (auto simp: isFinite_iff)
    from fin have "isFinite (lat (fst pp))" unfolding w_def by (rule windAt_finite_lat)
    then obtain y where y: "lat (fst pp) = Fin y" by (auto simp: isFinite_iff)
    from False have "fst (fst (updateParticle g Us Vs cam mode r pp)) = fst (advect w (fst pp))"
      unfolding updateParticle_cases w_def [symmetric] Let_def by simp
    then show ?thesis by (simp add: advect_lat [OF y b])
  qed
qed

lemma updateParticles_lat:
  assumes "\<forall>k. 0 \<le> snd (rnd k) \<and> snd (rnd k) < 1"
  shows "\<forall>pp \<in> set (fst (updateParticles g Us Vs cam mode rnd k pps)).
           \<exists>y. lat (fst pp) = Fin y \<and> - 90 \<le> y \<and> y \<le> 90"
proof (induction pps arbitrary: k)
  case Nil
  then show ?case by simp
next
  case (Cons pp pps)
  have "\<exists>y. lat (fst (fst (updateParticle g Us Vs cam mode (rnd k) pp))) = Fin y \<and> - 90 \<le> y \<and> y \<le> 90"
    using assms by (intro updateParticle_lat) simp_all
  then show ?case using Cons [of "Suc k"] by (simp add: Let_def)
qed


lemma gridI_polar_0: "gridI polar (Fin 0) = Fin 0"
  by (simp add: gridI_def polar_def normalizeLon_Fin fmod_def trunc_def)

lemma neighbours_polar:
  "neighbours polar [a0, a1, a2, a3] (Fin 0) (Fin 0) = [a0, a1, a2, a3]"
  by (simp add: neighbours_def idx_def aget_def polar_def fmod_def trunc_def)

lemma windAt_polar:
  assumes "0 < y" and "y \<le> 90"
  shows "windAt polar calm northward (Fin 0) (Fin y) = \<lparr> u = Fin 0, v = Fin 125 \<rparr>"
proof -
  have j: "gridJ polar (Fin y) = Fin ((90 - y) / 180)" by (simp add: gridJ_def polar_def)
  have "\<lfloor>(90 - y) / 180\<rfloor> = 0" using assms by (simp add: floor_eq_iff)
  then have f: "jfloor (Fin ((90 - y) / 180)) = Fin 0" by simp
  show ?thesis
    unfolding windAt_def Let_def gridI_polar_0 j f
    by (simp add: interp_def calm_def northward_def neighbours_polar blend_def algebra_simps)
qed

lemma windAt_polar_calm:
  "windAt polar calm calm (Fin 0) (Fin 0) = \<lparr> u = Fin 0, v = Fin 0 \<rparr>"
proof -
  have j: "gridJ polar (Fin 0) = Fin (1 / 2)" by (simp add: gridJ_def polar_def)
  show ?thesis
    unfolding windAt_def Let_def gridI_polar_0 j
    by (simp add: interp_def calm_def neighbours_polar blend_def)
qed

text \<open>
  C6, amended. The latitude a particle is stored with is finite and lies in the closed
  interval \<open>[-90, 90]\<close>: a fresh particle has latitude \<open>r * 180 - 90\<close> in \<open>[-90, 90)\<close> for its
  draw \<open>r\<close> in \<open>[0, 1)\<close>, an update that goes strictly beyond 90 or -90 is clamped to
  89.999 or -89.999, and every other update stays within the bounds; so it is for each
  particle after each pass of \<open>updateParticles\<close>.
\<close>

theorem particle_latitude_closed_range:
  assumes "0 \<le> r2" and "r2 < 1" and "\<forall>k. 0 \<le> snd (rnd k) \<and> snd (rnd k) < 1"
  shows "(\<exists>y. lat (spawn r1 r2 r3) = Fin y \<and> - 90 \<le> y \<and> y < 90) \<and>
    (\<exists>y. lat (fst (fst (updateParticle g Us Vs cam mode (r1, r2) pp))) = Fin y \<and>
          - 90 \<le> y \<and> y \<le> 90) \<and>
    (\<forall>q \<in> set (fst (updateParticles g Us Vs cam mode rnd k pps)).
          \<exists>y. lat (fst q) = Fin y \<and> - 90 \<le> y \<and> y \<le> 90) \<and>
    (lat p = Fin y0 \<and> v w = Fin b \<and> 90 < y0 + b * (8 / 1000)
       \<longrightarrow> lat (fst (advect w p)) = Fin (89999 / 1000)) \<and>
    (lat p = Fin y0 \<and> v w = Fin b \<and> y0 + b * (8 / 1000) < - 90
       \<longrightarrow> lat (fst (advect w p)) = Fin (- (89999 / 1000)))"
proof -
  have "\<exists>y. lat (spawn r1 r2 r3) = Fin y \<and> - 90 \<le> y \<and> y < 90"
    using assms(1,2) by (simp add: spawn_def)
  moreover have "\<exists>y. lat (fst (fst (updateParticle g Us Vs cam mode (r1, r2) pp))) = Fin y \<and>
          - 90 \<le> y \<and> y \<le> 90"
    using assms(1,2) by (intro updateParticle_lat) simp_all
  moreover note updateParticles_lat [OF assms(3), of g Us Vs cam mode k pps]
  moreover have "lat p = Fin y0 \<and> v w = Fin b \<and> 90 < y0 + b * (8 / 1000)
       \<longrightarrow> lat (fst (advect w p)) = Fin (89999 / 1000)"
    by (auto simp: advect_lat)
  moreover have "lat p = Fin y0 \<and> v w = Fin b \<and> y0 + b * (8 / 1000) < - 90
       \<longrightarrow> lat (fst (advect w p)) = Fin (- (89999 / 1000))"
    by (auto simp: advect_lat)
  ultimately show ?thesis by blast
qed

theorem particle_latitude_closed_range_witness:
  "(0::real) \<le> 0 \<and> (0::real) < 1 \<and>
   lat (spawn (1 / 2) 0 (1 / 2)) = Fin (- 90) \<and>
   (\<exists>y. lat (fst (fst (updateParticle polar calm northward frontView Wind (1 / 2, 0)
                  (\<lparr> lon = Fin 0, lat = Fin (179 / 2), age = Fin 0 \<rparr>, (NaN, NaN))))) = Fin y \<and>
        - 90 \<le> y \<and> y \<le> 90) \<and>
   lat (fst (advect \<lparr> u = Fin 0, v = Fin 125 \<rparr>
                    \<lparr> lon = Fin 0, lat = Fin (179 / 2), age = Fin 0 \<rparr>)) = Fin (89999 / 1000)"
proof -
  have h: "\<forall>k. 0 \<le> snd ((\<lambda>k::nat. (1 / 2 :: real, 0 :: real)) k) \<and>
               snd ((\<lambda>k::nat. (1 / 2 :: real, 0 :: real)) k) < 1" by simp
  have a: "(0::real) \<le> 0" "(0::real) < 1" by simp_all
  have s: "lat (spawn (1 / 2) 0 (1 / 2)) = Fin (- 90)" by (simp add: spawn_def)
  from particle_latitude_closed_range [OF a h, of "1 / 2" "1 / 2" polar calm northward frontView Wind
      "(\<lparr> lon = Fin 0, lat = Fin (179 / 2), age = Fin 0 \<rparr>, (NaN, NaN))" 0 "[]"
      "\<lparr> lon = Fin 0, lat = Fin (179 / 2), age = Fin 0 \<rparr>" "179 / 2"
      "\<lparr> u = Fin 0, v = Fin 125 \<rparr>" 125]
  show ?thesis using s by simp
qed

text \<open>
  The claim as stated fails at both ends of the interval: the draw 0 gives a fresh
  particle the latitude -90, and a particle at latitude 89 in a northward wind of
  125 m/s moves to exactly 90, which the test \<open>p.lat > 90\<close> lets through.
\<close>

theorem particle_latitude_counterexample:
  "lat (spawn (1 / 2) 0 (1 / 2)) = Fin (- 90) \<and>
   lat (fst (recycle (1 / 2) 0)) = Fin (- 90) \<and>
   lat (fst (fst (updateParticle polar calm northward frontView Wind (1 / 2, 1 / 2)
           (\<lparr> lon = Fin 0, lat = Fin 89, age = Fin 0 \<rparr>, (NaN, NaN))))) = Fin 90"
proof -
  have w: "windAt polar calm northward (Fin 0) (Fin 89) = \<lparr> u = Fin 0, v = Fin 125 \<rparr>"
    by (rule windAt_polar) simp_all
  have "lat (fst (advect \<lparr> u = Fin 0, v = Fin 125 \<rparr>
                    \<lparr> lon = Fin 0, lat = Fin 89, age = Fin 0 \<rparr>)) = Fin 90"
    by (simp add: advect_lat)
  then have "lat (fst (fst (updateParticle polar calm northward frontView Wind (1 / 2, 1 / 2)
           (\<lparr> lon = Fin 0, lat = Fin 89, age = Fin 0 \<rparr>, (NaN, NaN))))) = Fin 90"
    by (simp add: updateParticle_cases w jgt_def PARTICLE_LIFE_def Let_def)
  then show ?thesis by (simp add: spawn_def recycle_eq)
qed

section \<open>Recycling\<close>

text \<open>
  C5, amended. A particle is replaced by a fresh one, with longitude \<open>r1 * 360 - 180\<close> and
  latitude \<open>r2 * 180 - 90\<close> for two draws, age 0, a cleared \<open>prevXY\<close> entry and nothing
  drawn, whenever the wind sampled at its position is not finite or its incremented age
  exceeds \<open>PARTICLE_LIFE\<close>. A particle that crosses a pole is not replaced: it keeps
  moving with its latitude clamped to 89.999 or -89.999 and its age one tick greater.
\<close>

theorem updateParticle_recycle:
  assumes "w = windAt g Us Vs (lon p) (lat p)"
  shows "(\<not> isFinite (u w) \<or> \<not> isFinite (v w) \<or> jgt (jadd (age p) (Fin 1)) PARTICLE_LIFE \<longrightarrow>
            updateParticle g Us Vs cam mode (r1, r2) (p, prev) =
              ((\<lparr> lon = Fin (r1 * 360 - 180), lat = Fin (r2 * 180 - 90), age = Fin 0 \<rparr>,
                (NaN, NaN)), None)) \<and>
         (isFinite (u w) \<and> isFinite (v w) \<and> \<not> jgt (jadd (age p) (Fin 1)) PARTICLE_LIFE \<longrightarrow>
            fst (fst (updateParticle g Us Vs cam mode (r1, r2) (p, prev))) = fst (advect w p) \<and>
            age (fst (advect w p)) = jadd (age p) (Fin 1) \<and>
            (\<forall>y b. lat p = Fin y \<and> v w = Fin b \<and> 90 < y + b * (8 / 1000) \<longrightarrow>
                   lat (fst (advect w p)) = Fin (89999 / 1000)) \<and>
            (\<forall>y b. lat p = Fin y \<and> v w = Fin b \<and> y + b * (8 / 1000) < - 90 \<longrightarrow>
                   lat (fst (advect w p)) = Fin (- (89999 / 1000))))"
  unfolding updateParticle_cases Let_def
  by (auto simp: assms [symmetric] recycle_eq advect_age advect_lat)

theorem updateParticle_recycle_witness:
  "\<lparr> u = Fin 0, v = Fin 0 \<rparr> = windAt polar calm calm (Fin 0) (Fin 0) \<and>
   jgt (jadd (Fin 601) (Fin 1)) PARTICLE_LIFE \<and>
   updateParticle polar calm calm frontView Wind (1 / 2, 1 / 2)
       (\<lparr> lon = Fin 0, lat = Fin 0, age = Fin 601 \<rparr>, (Fin 400, Fin 300)) =
     ((\<lparr> lon = Fin 0, lat = Fin 0, age = Fin 0 \<rparr>, (NaN, NaN)), None)"
proof -
  have w: "\<lparr> u = Fin 0, v = Fin 0 \<rparr> =
      windAt polar calm calm (lon \<lparr> lon = Fin 0, lat = Fin 0, age = Fin 601 \<rparr>)
        (lat \<lparr> lon = Fin 0, lat = Fin 0, age = Fin 601 \<rparr>)"
    by (simp add: windAt_polar_calm)
  have j: "jgt (jadd (Fin 601) (Fin 1)) PARTICLE_LIFE" by (simp add: jgt_def PARTICLE_LIFE_def)
  from updateParticle_recycle [OF w, of frontView Wind "1 / 2" "1 / 2" "(Fin 400, Fin 300)"] j
  show ?thesis by (simp add: windAt_polar_calm)
qed

text \<open>
  The claim as stated fails for the pole: a particle at latitude 89.5 in a northward wind
  of 125 m/s crosses the pole and is kept, at latitude 89.999 and age 1; it is not the
  fresh particle.
\<close>

theorem updateParticle_recycle_counterexample:
  "jgt (jadd (Fin (179 / 2)) (jmul (Fin 125) SPEED_FACTOR)) (Fin 90) \<and>
   fst (fst (updateParticle polar calm northward frontView Wind (1 / 2, 1 / 2)
           (\<lparr> lon = Fin 0, lat = Fin (179 / 2), age = Fin 0 \<rparr>, (NaN, NaN)))) \<noteq>
     fst (recycle (1 / 2) (1 / 2)) \<and>
   age (fst (fst (updateParticle polar calm northward frontView Wind (1 / 2, 1 / 2)
           (\<lparr> lon = Fin 0, lat = Fin (179 / 2), age = Fin 0 \<rparr>, (NaN, NaN))))) = Fin 1 \<and>
   lat (fst (fst (updateParticle polar calm northward frontView Wind (1 / 2, 1 / 2)
           (\<lparr> lon = Fin 0, lat = Fin (179 / 2), age = Fin 0 \<rparr>, (NaN, NaN))))) =
     Fin (89999 / 1000)"
proof -
  have w: "windAt polar calm northward (Fin 0) (Fin (179 / 2)) = \<lparr> u = Fin 0, v = Fin 125 \<rparr>"
    by (rule windAt_polar) simp_all
  have e: "fst (fst (updateParticle polar calm northward frontView Wind (1 / 2, 1 / 2)
           (\<lparr> lon = Fin 0, lat = Fin (179 / 2), age = Fin 0 \<rparr>, (NaN, NaN)))) =
        fst (advect \<lparr> u = Fin 0, v = Fin 125 \<rparr> \<lparr> lon = Fin 0, lat = Fin (179 / 2), age = Fin 0 \<rparr>)"
    by (simp add: updateParticle_cases w jgt_def PARTICLE_LIFE_def Let_def)
  have a: "age (fst (advect \<lparr> u = Fin 0, v = Fin 125 \<rparr>
      \<lparr> lon = Fin 0, lat = Fin (179 / 2), age = Fin 0 \<rparr>)) = Fin 1"
    by (simp add: advect_age)
  have l: "lat (fst (advect \<lparr> u = Fin 0, v = Fin 125 \<rparr>
      \<lparr> lon = Fin 0, lat = Fin (179 / 2), age = Fin 0 \<rparr>)) = Fin (89999 / 1000)"
    using advect_lat [of "\<lparr> lon = Fin 0, lat = Fin (179 / 2), age = Fin 0 \<rparr>" "179 / 2"
        "\<lparr> u = Fin 0, v = Fin 125 \<rparr>" 125]
    by simp
  have n: "fst (advect \<lparr> u = Fin 0, v = Fin 125 \<rparr>
      \<lparr> lon = Fin 0, lat = Fin (179 / 2), age = Fin 0 \<rparr>) \<noteq> fst (recycle (1 / 2) (1 / 2))"
    using a by (auto simp: recycle_eq)
  show ?thesis unfolding e using a l n by (simp add: jgt_def SPEED_FACTOR_def)
qed

section \<open>The stroke of a trail segment\<close>

lemma drawTrail_Some:
  assumes "snd (drawTrail cam mode w plo pla prev q) = Some s"
  shows "strokeStyle s = trailColor mode (u w) (v w) \<and> globalAlpha s = trailAlpha q"
  using assms
  by (auto simp: drawTrail_def Let_def split: if_splits option.splits prod.splits)

lemma trailAlpha_Fin:
  assumes "age q = Fin c" and "1 \<le> c"
  shows "trailAlpha q = Fin (1 / 10 + (601 - c) / 601 * (9 / 10))"
proof -
  have "1 / 10 + (601 - c) / 601 * (9 / 10) < 1" using assms(2) by (simp add: field_simps)
  then show ?thesis using assms(1)
    by (simp add: trailAlpha_def PARTICLE_LIFE_def jmin_def)
qed

text \<open>
  C7, amended. Every trail segment that is drawn is stroked with a fixed white,
  \<open>rgba(255,255,255,0.7)\<close>, or \<open>rgba(255,255,255,0.9)\<close> in temperature mode, whatever the
  wind; its alpha is \<open>0.1 + 0.9 * (PARTICLE_LIFE - age) / PARTICLE_LIFE\<close> at the incremented
  age, which falls linearly over the whole lifetime, from just below 1 to 0.1, and is
  never 1.
\<close>

theorem trail_stroke:
  assumes "snd (updateParticle g Us Vs cam mode r (p, prev)) = Some s"
    and "age p = Fin a" and "0 \<le> a"
  shows "strokeStyle s =
           (if mode = Temperature then ''rgba(255,255,255,0.9)'' else ''rgba(255,255,255,0.7)'') \<and>
         globalAlpha s = Fin (1 / 10 + (601 - (a + 1)) / 601 * (9 / 10)) \<and>
         1 / 10 \<le> 1 / 10 + (601 - (a + 1)) / 601 * (9 / 10) \<and>
         1 / 10 + (601 - (a + 1)) / 601 * (9 / 10) < 1"
proof -
  define w where "w = windAt g Us Vs (lon p) (lat p)"
  have keep: "\<not> jgt (jadd (age p) (Fin 1)) PARTICLE_LIFE"
    and d: "snd (drawTrail cam mode w (lon p) (lat p) prev (fst (advect w p))) = Some s"
    using assms(1) by (auto simp: updateParticle_cases Let_def w_def split: if_splits)
  from keep assms(2) have le: "a + 1 \<le> 601" by (simp add: jgt_def PARTICLE_LIFE_def)
  have "age (fst (advect w p)) = Fin (a + 1)" using assms(2) by (simp add: advect_age)
  then have al: "trailAlpha (fst (advect w p)) = Fin (1 / 10 + (601 - (a + 1)) / 601 * (9 / 10))"
    using assms(3) by (intro trailAlpha_Fin) simp_all
  have "1 / 10 \<le> 1 / 10 + (601 - (a + 1)) / 601 * (9 / 10)" using le by simp
  moreover have "1 / 10 + (601 - (a + 1)) / 601 * (9 / 10) < 1"
    using assms(3) by (simp add: field_simps)
  ultimately show ?thesis using drawTrail_Some [OF d] al by (simp add: trailColor_def)
qed

lemma sqrt_radius: "sqrt (160801 / 4) = 401 / 2"
  by (rule real_sqrt_unique) (simp_all add: power2_eq_square)

lemma advect_calm:
  "fst (advect \<lparr> u = Fin 0, v = Fin 0 \<rparr> \<lparr> lon = Fin 0, lat = Fin 0, age = Fin 99 \<rparr>) =
     \<lparr> lon = Fin 0, lat = Fin 0, age = Fin 100 \<rparr>"
  by (simp add: advect_def Let_def SPEED_FACTOR_def degToRad_def jgt_def fmod_def trunc_def)

lemma worldPos_origin:
  "lonLatToVec3 (Fin 0) (Fin 0) (jadd GLOBE_RADIUS (Fin (1 / 2))) = (Fin 0, Fin 0, Fin (401 / 2))"
  by (simp add: lonLatToVec3_def Let_def degToRad_def GLOBE_RADIUS_def)

lemma normalize_origin: "normalize (Fin 0, Fin 0, Fin (401 / 2)) = (Fin 0, Fin 0, Fin 1)"
  by (simp add: normalize_def vlength_def dot_def multiplyScalar_def Let_def sqrt_radius)

lemma drawTrail_front:
  "drawTrail frontView Wind \<lparr> u = Fin 0, v = Fin 0 \<rparr> (Fin 0) (Fin 0) (Fin 400, Fin 300)
       \<lparr> lon = Fin 0, lat = Fin 0, age = Fin 100 \<rparr> =
     ((Fin 400, Fin 300),
      Some \<lparr> strokeStyle = ''rgba(255,255,255,0.7)'', globalAlpha = Fin (511 / 601),
             moveTo = (Fin 400, Fin 300), lineTo = (Fin 400, Fin 300) \<rparr>)"
proof -
  have a: "trailAlpha \<lparr> lon = Fin 0, lat = Fin 0, age = Fin 100 \<rparr> = Fin (511 / 601)"
    using trailAlpha_Fin [of "\<lparr> lon = Fin 0, lat = Fin 0, age = Fin 100 \<rparr>" 100] by simp
  have s: "worldToScreen frontView (Fin 0, Fin 0, Fin (401 / 2)) = Some (Fin 400, Fin 300)"
    by (simp add: worldToScreen_def frontView_def jgt_def)
  have c: "camDir frontView = (Fin 0, Fin 0, Fin 1)" "canvasWidth frontView = 800"
    "canvasHeight frontView = 600" by (simp_all add: frontView_def)
  show ?thesis
    by (simp add: drawTrail_def Let_def worldPos_origin normalize_origin c s a dot_def jgt_def
        jle_def jhypot_def trailColor_def)
qed

theorem trail_stroke_witness:
  "snd (updateParticle polar calm calm frontView Wind (1 / 2, 1 / 2)
         (\<lparr> lon = Fin 0, lat = Fin 0, age = Fin 99 \<rparr>, (Fin 400, Fin 300))) =
     Some \<lparr> strokeStyle = ''rgba(255,255,255,0.7)'', globalAlpha = Fin (511 / 601),
            moveTo = (Fin 400, Fin 300), lineTo = (Fin 400, Fin 300) \<rparr> \<and>
   age \<lparr> lon = Fin 0, lat = Fin 0, age = Fin 99 \<rparr> = Fin 99 \<and> (0::real) \<le> 99 \<and>
   globalAlpha \<lparr> strokeStyle = ''rgba(255,255,255,0.7)'', globalAlpha = Fin (511 / 601),
            moveTo = (Fin 400, Fin 300), lineTo = (Fin 400, Fin 300) \<rparr> =
     Fin (1 / 10 + (601 - (99 + 1)) / 601 * (9 / 10))"
proof -
  have d: "snd (updateParticle polar calm calm frontView Wind (1 / 2, 1 / 2)
         (\<lparr> lon = Fin 0, lat = Fin 0, age = Fin 99 \<rparr>, (Fin 400, Fin 300))) =
     Some \<lparr> strokeStyle = ''rgba(255,255,255,0.7)'', globalAlpha = Fin (511 / 601),
            moveTo = (Fin 400, Fin 300), lineTo = (Fin 400, Fin 300) \<rparr>"
    by (simp add: updateParticle_cases Let_def windAt_polar_calm advect_calm drawTrail_front
        jgt_def PARTICLE_LIFE_def)
  have a: "age \<lparr> lon = Fin 0, lat = Fin 0, age = Fin 99 \<rparr> = Fin 99" by simp
  have n: "(0::real) \<le> 99" by simp
  from trail_stroke [OF d a n] show ?thesis using d by simp
qed

text \<open>
  The claim as stated fails: at age 100, in the first half of the lifetime of 601 ticks,
  the segment is drawn with alpha 511/601, not 1, and in plain white.
\<close>

theorem trail_stroke_counterexample:
  "snd (updateParticle polar calm calm frontView Wind (1 / 2, 1 / 2)
         (\<lparr> lon = Fin 0, lat = Fin 0, age = Fin 99 \<rparr>, (Fin 400, Fin 300))) =
     Some \<lparr> strokeStyle = ''rgba(255,255,255,0.7)'', globalAlpha = Fin (511 / 601),
            moveTo = (Fin 400, Fin 300), lineTo = (Fin 400, Fin 300) \<rparr> \<and>
   (511 / 601 :: real) < 1 \<and> (100 :: real) < 601 / 2"
  by (simp add: updateParticle_cases Let_def windAt_polar_calm advect_calm drawTrail_front
      jgt_def PARTICLE_LIFE_def)

section \<open>Pixels the overlay pass leaves alone\<close>

lemma fold_nth_unchanged:
  assumes "\<And>x b. x \<in> set xs \<Longrightarrow> f x b ! i = b ! i"
  shows "fold f xs b ! i = b ! i"
  using assms by (induction xs arbitrary: b) simp_all

lemma pixel_index_neq:
  assumes "px < w" and "qx < w" and "(qx, qy) \<noteq> (px, py)" and "j < 4" and "k < 4"
  shows "(qy * w + qx) * 4 + k \<noteq> (py * w + px) * 4 + (j::nat)"
proof
  assume "(qy * w + qx) * 4 + k = (py * w + px) * 4 + j"
  with assms(4,5) have e: "qy * w + qx = py * w + px" by arith
  have "(qy * w + qx) mod w = qx" "(py * w + px) mod w = px"
    using assms(1,2) by simp_all
  with e have x: "qx = px" by simp
  have "(qy * w + qx) div w = qy" "(py * w + px) div w = py"
    using assms(1,2) by simp_all
  with e have "qy = py" by simp
  with x assms(3) show False by simp
qed

lemma writePixel_other:
  assumes "px < w" and "qx < w" and "(qx, qy) \<noteq> (px, py)" and "j < 4"
  shows "writePixel w qx qy c buf ! ((py * w + px) * 4 + j) = buf ! ((py * w + px) * 4 + j)"
proof -
  have "(qy * w + qx) * 4 + k \<noteq> (py * w + px) * 4 + j" if "k < 4" for k
    using pixel_index_neq [OF assms(1,2,3,4) that] .
  from this [of 0] this [of 1] this [of 2] this [of 3]
  show ?thesis by (simp add: writePixel_def Let_def split: prod.splits)
qed

lemma paintBlock_other:
  assumes "px < w" and "j < 4"
    and "\<not> (x \<le> px \<and> px < x + step \<and> y \<le> py \<and> py < y + step)"
  shows "paintBlock w h step x y col buf ! ((py * w + px) * 4 + j) = buf ! ((py * w + px) * 4 + j)"
  unfolding paintBlock_def
proof (intro fold_nth_unchanged)
  fix ox oy b
  assume "ox \<in> set [0..<min step (w - x)]" and "oy \<in> set [0..<min step (h - y)]"
  then have "x + ox < w" and "(x + ox, y + oy) \<noteq> (px, py)" using assms(3) by auto
  then show "writePixel w (x + ox) (y + oy) (col ox oy) b ! ((py * w + px) * 4 + j) =
             b ! ((py * w + px) * 4 + j)"
    using assms(1,2) by (intro writePixel_other) simp_all
qed

lemma renderSample_other:
  assumes "px < w" and "j < 4"
    and "\<not> (x \<le> px \<and> px < x + step \<and> y \<le> py \<and> py < y + step) \<or>
         sampleHit (camPos sc) (rayDirection sc x y) = None"
  shows "renderSample sc w h step x y buf ! ((py * w + px) * 4 + j) = buf ! ((py * w + px) * 4 + j)"
proof (cases "sampleHit (camPos sc) (rayDirection sc x y)")
  case None
  then show ?thesis by (simp add: renderSample_def)
next
  case (Some q)
  with assms(3) have out: "\<not> (x \<le> px \<and> px < x + step \<and> y \<le> py \<and> py < y + step)" by simp
  show ?thesis
  proof (cases "shade sc x y q")
    case None
    with Some show ?thesis by (simp add: renderSample_def)
  next
    case (Some col)
    with \<open>sampleHit (camPos sc) (rayDirection sc x y) = Some q\<close> show ?thesis
      using paintBlock_other [OF assms(1,2) out] by (simp add: renderSample_def)
  qed
qed

lemma block_origin:
  assumes "0 < step" and "x mod step = 0" and "x \<le> px" and "px < x + step"
  shows "px - px mod step = (x::nat)"
proof -
  define d where "d = px - x"
  have p: "px = x + d" and d: "d < step" using assms(3,4) by (simp_all add: d_def)
  have "(x + d) mod step = (x mod step + d) mod step" by (simp add: mod_add_left_eq)
  then have "px mod step = d" using assms(2) d p by simp
  then show ?thesis using p by simp
qed

lemma pass_other:
  assumes "px < w" and "py < h" and "j < 4" and "0 < step"
    and "sampleHit (camPos sc) (rayDirection sc (px - px mod step) (py - py mod step)) = None"
  shows "fold (\<lambda>x. fold (\<lambda>y. renderSample sc w h step x y) (samples step h)) (samples step w) buf
           ! ((py * w + px) * 4 + j) = buf ! ((py * w + px) * 4 + j)"
proof (intro fold_nth_unchanged)
  fix x y b
  assume "x \<in> set (samples step w)" and "y \<in> set (samples step h)"
  then have m: "x mod step = 0" "y mod step = 0" by (simp_all add: samples_def)
  show "renderSample sc w h step x y b ! ((py * w + px) * 4 + j) = b ! ((py * w + px) * 4 + j)"
  proof (cases "x \<le> px \<and> px < x + step \<and> y \<le> py \<and> py < y + step")
    case True
    then have "px - px mod step = x" "py - py mod step = y"
      using m assms(4) by (simp_all add: block_origin)
    with assms(5) have "sampleHit (camPos sc) (rayDirection sc x y) = None" by simp
    then show ?thesis using assms(1,3) by (intro renderSample_other) simp_all
  next
    case False
    then show ?thesis using assms(1,3) by (intro renderSample_other) simp_all
  qed
qed

lemma pixel_index_bound:
  assumes "px < w" and "py < h" and "j < 4"
  shows "(py * w + px) * 4 + j < w * h * (4::nat)"
proof -
  have "py * w + px < py * w + w" using assms(1) by simp
  also have "\<dots> = (py + 1) * w" by simp
  also have "\<dots> \<le> h * w" using assms(2) by (intro mult_le_mono1) simp
  finally have "py * w + px < w * h" by (simp add: mult.commute)
  then show ?thesis using assms(3) by simp
qed

lemma sampleHit_None_iff:
  "sampleHit c rd = None \<longleftrightarrow>
     (\<not> jge (discriminant c rd) (Fin 0) \<or> \<not> jgt (nearRoot c rd) (Fin 0) \<or>
      \<not> jgt (facing c rd) (Fin (1 / 10)))"
  by (simp add: sampleHit_def)

lemma baseStep_pos: "0 < baseStep mode w h"
  by (simp add: baseStep_def max_def)

text \<open>
  C10, amended. The pass casts one ray for each block of \<open>step\<close> by \<open>step\<close> pixels,
  through the sample point at the origin of the block. Every pixel of the image buffer
  is transparent black unless the ray of its block has a non-negative discriminant, a
  nearer root above 0 and a normal whose dot product with the camera direction is above
  0.1; so only pixels of blocks whose sample passes the three tests are ever written.
\<close>

theorem overlay_leaves_missed_pixels_transparent:
  assumes "renderAirModeOverlay enabled mode moving sc w h = Some buf"
    and "px < w" and "py < h"
    and "rd = rayDirection sc (px - px mod baseStep mode w h) (py - py mod baseStep mode w h)"
    and "\<not> jge (discriminant (camPos sc) rd) (Fin 0) \<or>
         \<not> jgt (nearRoot (camPos sc) rd) (Fin 0) \<or>
         \<not> jgt (facing (camPos sc) rd) (Fin (1 / 10))"
  shows "pixelAt w buf px py = (0, 0, 0, 0)"
proof -
  let ?step = "baseStep mode w h"
  have none: "sampleHit (camPos sc) (rayDirection sc (px - px mod ?step) (py - py mod ?step)) = None"
    using assms(4,5) by (simp add: sampleHit_None_iff)
  have buf: "buf = fold (\<lambda>x. fold (\<lambda>y. renderSample sc w h ?step x y) (samples ?step h))
                     (samples ?step w) (replicate (w * h * 4) 0)"
    using assms(1) by (simp add: renderAirModeOverlay_def Let_def split: if_splits)
  have "buf ! ((py * w + px) * 4 + j) = 0" if "j < 4" for j
  proof -
    have "buf ! ((py * w + px) * 4 + j) = replicate (w * h * 4) 0 ! ((py * w + px) * 4 + j)"
      unfolding buf by (rule pass_other [OF assms(2,3) that baseStep_pos none])
    also have "\<dots> = 0" using pixel_index_bound [OF assms(2,3) that] by simp
    finally show ?thesis .
  qed
  from this [of 0] this [of 1] this [of 2] this [of 3]
  show ?thesis by (simp add: pixelAt_def Let_def)
qed


lemma demo_miss: "discriminant (Fin 0, Fin 0, Fin 450) (Fin 1, Fin 0, Fin 0) = Fin (- 650000)"
  by (simp add: discriminant_def dot_def Let_def GLOBE_RADIUS_def)

lemma demo_disc: "discriminant (Fin 0, Fin 0, Fin 450) (Fin 0, Fin 0, Fin (- 1)) = Fin 160000"
  by (simp add: discriminant_def dot_def Let_def GLOBE_RADIUS_def)

lemma sqrt_160000: "sqrt 160000 = 400"
  by (rule real_sqrt_unique) (simp_all add: power2_eq_square)

lemma sqrt_40000: "sqrt 40000 = 200"
  by (rule real_sqrt_unique) (simp_all add: power2_eq_square)

lemma sqrt_202500: "sqrt 202500 = 450"
  by (rule real_sqrt_unique) (simp_all add: power2_eq_square)

lemma demo_root: "nearRoot (Fin 0, Fin 0, Fin 450) (Fin 0, Fin 0, Fin (- 1)) = Fin 250"
  by (simp add: nearRoot_def demo_disc dot_def Let_def sqrt_160000)

lemma demo_point:
  "intersectionPoint (Fin 0, Fin 0, Fin 450) (Fin 0, Fin 0, Fin (- 1)) = (Fin 0, Fin 0, Fin 200)"
  by (simp add: intersectionPoint_def demo_root vadd_def multiplyScalar_def)

lemma demo_facing: "facing (Fin 0, Fin 0, Fin 450) (Fin 0, Fin 0, Fin (- 1)) = Fin 1"
  by (simp add: facing_def demo_point normalize_def vlength_def dot_def multiplyScalar_def
      Let_def sqrt_40000 sqrt_202500)

lemma demo_hit:
  "sampleHit (Fin 0, Fin 0, Fin 450) (Fin 0, Fin 0, Fin (- 1)) = Some (Fin 0, Fin 0, Fin 200)"
  by (simp add: sampleHit_def demo_disc demo_root demo_facing demo_point jge_def jle_def jgt_def)

lemma demo_no_hit: "sampleHit (Fin 0, Fin 0, Fin 450) (Fin 1, Fin 0, Fin 0) = None"
  by (simp add: sampleHit_def demo_miss jge_def jle_def)

lemma demo_samples: "samples (Suc 0) 2 = [0, Suc 0]" "samples (Suc 0) (Suc 0) = [0]"
  by (simp_all add: samples_def upt_rec)

lemma demo_paint:
  "paintBlock 2 (Suc 0) (Suc 0) (Suc 0) 0 (\<lambda>ox oy. (9, 9, 9, 9)) [0, 0, 0, 0, 0, 0, 0, 0] =
     [0, 0, 0, 0, 9, 9, 9, 9]"
  by (simp add: paintBlock_def writePixel_def Let_def numeral_eq_Suc)

lemma demo_replicate: "replicate 8 (0::nat) = [0, 0, 0, 0, 0, 0, 0, 0]"
  by (simp add: numeral_eq_Suc)

lemma demo_pass:
  "renderAirModeOverlay True Wind False demoScene 2 1 = Some [0, 0, 0, 0, 9, 9, 9, 9]"
  by (simp add: renderAirModeOverlay_def baseStep_def Let_def demo_samples demo_replicate
      renderSample_def demoScene_def demo_hit demo_no_hit demo_paint)

theorem overlay_leaves_missed_pixels_transparent_witness:
  "renderAirModeOverlay True Wind False demoScene 2 1 = Some [0, 0, 0, 0, 9, 9, 9, 9] \<and>
   (0::nat) < 2 \<and> (0::nat) < 1 \<and>
   \<not> jge (discriminant (camPos demoScene) (rayDirection demoScene 0 0)) (Fin 0) \<and>
   pixelAt 2 [0, 0, 0, 0, 9, 9, 9, 9] 0 0 = (0, 0, 0, 0) \<and>
   pixelAt 2 [0, 0, 0, 0, 9, 9, 9, 9] 1 0 = (9, 9, 9, 9)"
proof -
  have a: "(0::nat) < 2" "(0::nat) < 1" by simp_all
  have r: "rayDirection demoScene 0 0 =
      rayDirection demoScene (0 - 0 mod baseStep Wind 2 1) (0 - 0 mod baseStep Wind 2 1)"
    by simp
  have m: "\<not> jge (discriminant (camPos demoScene) (rayDirection demoScene 0 0)) (Fin 0)"
    by (simp add: demoScene_def demo_miss jge_def jle_def)
  then have d: "\<not> jge (discriminant (camPos demoScene) (rayDirection demoScene 0 0)) (Fin 0) \<or>
      \<not> jgt (nearRoot (camPos demoScene) (rayDirection demoScene 0 0)) (Fin 0) \<or>
      \<not> jgt (facing (camPos demoScene) (rayDirection demoScene 0 0)) (Fin (1 / 10))" ..
  from overlay_leaves_missed_pixels_transparent [OF demo_pass a r d]
  show ?thesis using m demo_pass by (simp add: pixelAt_def)
qed

section \<open>The loaders reject no header\<close>

lemma loadWind_levels:
  assumes "\<forall>uv \<in> set files. \<not> incomplete uv"
  shows "snd (loadWind gm acc files) = Inr (acc @ List.map_filter windLevelOf files)"
  using assms
proof (induction files arbitrary: gm acc)
  case Nil
  then show ?case by simp
next
  case (Cons uv files)
  then have ih: "\<And>gm acc. snd (loadWind gm acc files) = Inr (acc @ List.map_filter windLevelOf files)"
    and c: "\<not> incomplete uv" by simp_all
  show ?case
  proof (cases "windLevelOf uv")
    case None
    then have "loadWind gm acc (uv # files) = loadWind gm acc files"
      using c by (auto simp: windLevelOf_def incomplete_def split: option.splits)
    then show ?thesis using None by (simp add: ih)
  next
    case (Some l)
    then have "\<exists>gm1. loadWind gm acc (uv # files) = loadWind gm1 (acc @ [l]) files"
      by (auto simp: windLevelOf_def split: option.splits)
    then show ?thesis using Some by (auto simp: ih)
  qed
qed

lemma loadWind_raises:
  assumes "\<exists>uv \<in> set files. incomplete uv"
  shows "snd (loadWind gm acc files) = Inl TypeError"
  using assms
proof (induction files arbitrary: gm acc)
  case Nil
  then show ?case by simp
next
  case (Cons uv files)
  show ?case
  proof (cases "incomplete uv")
    case True
    then show ?thesis by (auto simp: incomplete_def split: option.splits)
  next
    case False
    with Cons.prems have "\<exists>uv \<in> set files. incomplete uv" by simp
    then have "\<And>gm acc. snd (loadWind gm acc files) = Inl TypeError" by (rule Cons.IH)
    then show ?thesis by (simp split: option.splits)
  qed
qed

lemma loadTemp_levels:
  "snd (loadTemp gm acc files) = acc @ List.map_filter tempLevelOf files"
  by (induction gm acc files rule: loadTemp.induct) simp_all

text \<open>
  C3, amended. The loaders test no header field and no array length. When every wind
  file that has both records has the V record's header and both data arrays, the wind
  levels are the levels of the files that have both records, in order, whatever \<open>nx\<close>,
  \<open>dx\<close> and the array lengths are; the temperature levels are those of the files that
  have an object, a header and a data array. A file that is skipped does not stop the
  ones after it.
\<close>

theorem loaders_keep_every_present_file:
  assumes "\<forall>uv \<in> set files. \<not> incomplete uv" and "\<not> incomplete uv"
  shows "snd (loadWind gm acc files) = Inr (acc @ List.map_filter windLevelOf files) \<and>
    snd (loadTemp gm' acc' files') = acc' @ List.map_filter tempLevelOf files' \<and>
    (windLevelOf uv = None) = (entry uv 0 = None \<or> entry uv 1 = None) \<and>
    (tempLevelOf (Some (TempObj ho dt)) = None) = (ho = None \<or> dt = None)"
proof -
  have "(windLevelOf uv = None) = (entry uv 0 = None \<or> entry uv 1 = None)"
    using assms(2) by (auto simp: windLevelOf_def incomplete_def split: option.splits)
  moreover have "(tempLevelOf (Some (TempObj ho dt)) = None) = (ho = None \<or> dt = None)"
    by (cases ho; cases dt) simp_all
  ultimately show ?thesis by (simp add: loadWind_levels [OF assms(1)] loadTemp_levels)
qed

theorem loaders_keep_every_present_file_witness:
  "\<not> incomplete [Some badObj, Some badObj] \<and> \<not> incomplete [Some badObj] \<and>
   snd (loadWind None [] [[Some badObj], [Some badObj, Some badObj]]) =
     Inr [windLevel badHeader [Some (Fin 1), Some (Fin 2), Some (Fin 3)]
            [Some (Fin 1), Some (Fin 2), Some (Fin 3)]] \<and>
   windLevelOf [Some badObj] = None"
proof -
  have a: "\<not> incomplete [Some badObj, Some badObj]" "\<not> incomplete [Some badObj]"
    by (simp_all add: incomplete_def entry_def badObj_def)
  then have b: "\<forall>uv \<in> set [[Some badObj], [Some badObj, Some badObj]]. \<not> incomplete uv"
    by simp
  from loaders_keep_every_present_file [OF b a(2), of None "[]"]
  show ?thesis using a
    by (simp add: windLevelOf_def entry_def badObj_def)
qed

text \<open>
  The claim as stated fails: a wind file with \<open>nx = 1\<close>, \<open>dx = 0\<close> and three samples for a
  grid of \<open>1 * 2\<close> cells is loaded, becomes the only level and sets \<open>gridMeta\<close>.
\<close>

theorem loaders_counterexample:
  "nx badHeader = Fin 1 \<and> dx badHeader = Fin 0 \<and> ny badHeader = Fin 2 \<and>
   header badObj = Some badHeader \<and>
   data badObj = Some [Some (Fin 1), Some (Fin 2), Some (Fin 3)] \<and>
   loadWind None [] [[Some badObj, Some badObj]] =
     (Some (metaOf badHeader),
      Inr [windLevel badHeader [Some (Fin 1), Some (Fin 2), Some (Fin 3)]
             [Some (Fin 1), Some (Fin 2), Some (Fin 3)]]) \<and>
   U (windLevel badHeader [Some (Fin 1), Some (Fin 2), Some (Fin 3)]
        [Some (Fin 1), Some (Fin 2), Some (Fin 3)]) = [Fin 1, Fin 2, Fin 3]"
  by (simp add: entry_def badObj_def badHeader_def windLevel_def to32_def)

section \<open>The value at a grid point\<close>

lemma aget_int_finite:
  assumes "isFinite (aget A (Fin (of_int k)))"
  shows "0 \<le> k \<and> k < int (length A) \<and> aget A (Fin (of_int k)) = A ! nat k"
proof -
  from assms have "(0::real) \<le> of_int k" "(of_int k :: real) < real (length A)"
    by (auto simp: aget_def split: if_splits)
  then have "0 \<le> k" "k < int (length A)" by linarith+
  then show ?thesis by (simp add: aget_def)
qed

text \<open>
  C2, amended. On a grid with integer \<open>nx \<ge> 1\<close> and \<open>ny\<close> whose arrays hold \<open>nx * ny\<close>
  cells, at a position whose grid coordinates \<open>i \<ge> 0\<close> and \<open>j\<close> are integers and whose four
  gathered samples are all finite, the row satisfies \<open>0 \<le> j \<le> ny - 2\<close> and \<open>windAt\<close>
  returns exactly the values stored for the grid point, in cell \<open>j * nx + i mod nx\<close> of the
  \<open>U\<close> and of the \<open>V\<close> array.
\<close>

theorem windAt_on_grid:
  assumes "nx g = Fin (of_int n)" and "1 \<le> n" and "ny g = Fin (of_int m)"
    and "int (length Us) = n * m" and "int (length Vs) = n * m"
    and "gridI g lo = Fin (of_int a)" and "0 \<le> a" and "gridJ g la = Fin (of_int b)"
    and "\<forall>x \<in> set (neighbours g Us (Fin (of_int b)) (Fin (of_int a))). isFinite x"
    and "\<forall>x \<in> set (neighbours g Vs (Fin (of_int b)) (Fin (of_int a))). isFinite x"
  shows "0 \<le> b \<and> b \<le> m - 2 \<and>
         u (windAt g Us Vs lo la) = Us ! nat (b * n + a mod n) \<and>
         v (windAt g Us Vs lo la) = Vs ! nat (b * n + a mod n)"
proof -
  have n: "0 < n" and an: "- n \<le> a" using assms(2,7) by simp_all
  have c: "0 \<le> a mod n" "a mod n < n" using n by simp_all
  have i0: "idx g (Fin (of_int r)) (Fin (of_int a)) = Fin (of_int (r * n + a mod n))" for r
    using idx_int [OF assms(1) n an, of r] by simp
  have uu: "u (windAt g Us Vs lo la) = aget Us (Fin (of_int (b * n + a mod n)))"
    using assms(6,8,9) by (simp add: windAt_def Let_def interp_on_grid) (simp add: i0)
  have vv: "v (windAt g Us Vs lo la) = aget Vs (Fin (of_int (b * n + a mod n)))"
    using assms(6,8,10) by (simp add: windAt_def Let_def interp_on_grid) (simp add: i0)
  have j1: "jadd (Fin (of_int b)) (Fin 1) = Fin (of_int (b + 1))" by simp
  have f0: "isFinite (aget Us (Fin (of_int (b * n + a mod n))))"
    using assms(9) unfolding neighbours_def i0 by simp
  have f1: "isFinite (aget Us (Fin (of_int ((b + 1) * n + a mod n))))"
    using assms(9) unfolding neighbours_def j1 i0 by simp
  have g0: "isFinite (aget Vs (Fin (of_int (b * n + a mod n))))"
    using assms(10) unfolding neighbours_def i0 by simp
  have "\<not> (b < 0 \<or> m \<le> b)"
    using aget_row_outside [OF assms(4) n _ c, of b] f0 by auto
  moreover have "\<not> (b + 1 < 0 \<or> m \<le> b + 1)"
    using aget_row_outside [OF assms(4) n _ c, of "b + 1"] f1 by auto
  ultimately have b: "0 \<le> b" "b \<le> m - 2" by simp_all
  from aget_int_finite [OF f0] aget_int_finite [OF g0] uu vv b show ?thesis by simp
qed

theorem windAt_on_grid_witness:
  "nx grid22 = Fin (of_int 2) \<and> ny grid22 = Fin (of_int 2) \<and> int (length field22) = 2 * 2 \<and>
   gridI grid22 (Fin 0) = Fin (of_int 0) \<and> gridJ grid22 (Fin 10) = Fin (of_int 0) \<and>
   neighbours grid22 field22 (Fin (of_int 0)) (Fin (of_int 0)) = [Fin 0, Fin 10, Fin 0, Fin 10] \<and>
   u (windAt grid22 field22 field22 (Fin 0) (Fin 10)) = field22 ! nat (0 * 2 + 0 mod 2) \<and>
   field22 ! nat (0 * 2 + 0 mod 2) = Fin 0"
proof -
  have g: "nx grid22 = Fin (of_int 2)" "ny grid22 = Fin (of_int 2)" by (simp_all add: grid22_def)
  have l: "int (length field22) = 2 * 2" by (simp add: field22_def)
  have i: "gridI grid22 (Fin 0) = Fin (of_int 0)" by (simp add: gridI_grid22_0)
  have j: "gridJ grid22 (Fin 10) = Fin (of_int 0)" by (simp add: gridJ_grid22_10)
  have f: "\<forall>x \<in> set (neighbours grid22 field22 (Fin (of_int 0)) (Fin (of_int 0))). isFinite x"
    by (simp add: neighbours_field22)
  have one: "(1::int) \<le> 2" "(0::int) \<le> 0" by simp_all
  from windAt_on_grid [OF g(1) one(1) g(2) l l i one(2) j f f]
  show ?thesis using g l i j by (simp add: neighbours_field22) (simp add: field22_def)
qed

text \<open>
  The claim as stated fails on the last row, \<open>j = ny - 1\<close>, where the samples of row
  \<open>j + 1\<close> are read past the end of the array, and at any grid point with a missing
  neighbour: the stored value is 0 and the sampler returns \<open>NaN\<close>.
\<close>

theorem windAt_on_grid_counterexample:
  "gridI grid22 (Fin 0) = Fin 0 \<and> gridJ grid22 (Fin 0) = Fin 1 \<and> ny grid22 = Fin 2 \<and>
   aget field22 (idx grid22 (Fin 1) (Fin 0)) = Fin 0 \<and>
   u (windAt grid22 field22 field22 (Fin 0) (Fin 0)) = NaN \<and>
   gridJ grid22 (Fin 10) = Fin 0 \<and>
   aget holed22 (idx grid22 (Fin 0) (Fin 0)) = Fin 0 \<and>
   u (windAt grid22 holed22 holed22 (Fin 0) (Fin 10)) = NaN"
proof -
  have a: "aget field22 (idx grid22 (Fin 1) (Fin 0)) = Fin 0"
    using neighbours_field22_last_row by (simp add: neighbours_def)
  have b: "aget holed22 (idx grid22 (Fin 0) (Fin 0)) = Fin 0"
    using neighbours_holed22 by (simp add: neighbours_def)
  have c: "u (windAt grid22 field22 field22 (Fin 0) (Fin 0)) = NaN"
    by (simp add: windAt_def Let_def gridI_grid22_0 gridJ_grid22_0 interp_NaN
        neighbours_field22_last_row)
  have d: "u (windAt grid22 holed22 holed22 (Fin 0) (Fin 10)) = NaN"
    by (simp add: windAt_def Let_def gridI_grid22_0 gridJ_grid22_10 interp_NaN
        neighbours_holed22)
  show ?thesis
    using a b c d by (simp add: gridI_grid22_0 gridJ_grid22_0 gridJ_grid22_10) (simp add: grid22_def)
qed

section \<open>A row outside a regional grid\<close>

lemma gridI_regional: "gridI regional (Fin (- (351 / 2))) = Fin (- (91 / 2))"
  by (simp add: gridI_def regional_def normalizeLon_Fin fmod_def trunc_def)

lemma gridJ_regional: "gridJ regional (Fin (17 / 2)) = Fin (3 / 2)"
  by (simp add: gridJ_def regional_def)

lemma neighbours_regional:
  "neighbours regional (replicate 20 (Fin 1)) (Fin 1) (Fin (- 46)) = [Fin 1, Fin 1, Fin 1, Fin 1]"
  by (simp add: neighbours_def idx_def aget_def regional_def fmod_def trunc_def)

lemma idx_regional:
  "idx regional (Fin 2) (Fin (- 46)) = Fin 14" "idx regional (Fin 2) (Fin (- 45)) = Fin 15"
  by (simp_all add: idx_def regional_def fmod_def trunc_def)

lemma idxT_regional: "idxT regional (Fin 1) (Fin (- 46)) = Fin 14"
  by (simp add: idxT_def regional_def fmod_def trunc_def)

lemma safeGet_regional:
  "safeGet regional (replicate 20 (Fin 1)) (Fin 2) (Fin (- 46)) = NaN"
  by (simp add: safeGet_def regional_def jge_def jle_def)

text \<open>
  C9. The column wrap of \<open>idx\<close> is \<open>(i + nx) % nx\<close>, whose remainder is negative for a
  column below \<open>-nx\<close>, so the claim fails in the code: on the regional grid of ten
  columns and two rows that starts at 230 degrees east, sampling at longitude -175.5 and
  latitude 8.5 needs the rows 1 and 2; the column is -46, the reads of row 2, which is
  outside \<open>[0, ny - 1]\<close>, land in the cells 14 and 15 of row 1, and the sampler returns the
  finite value 1. The temperature branch wraps the same column to 4 and its guarded read
  gives \<open>NaN\<close> for row 2.
\<close>

theorem windAt_row_outside_regional:
  "ny regional = Fin 2 \<and> length (replicate 20 (Fin 1) :: jsnum list) = 10 * 2 \<and>
   jfloor (gridJ regional (Fin (17 / 2))) = Fin 1 \<and>
   jfloor (gridI regional (Fin (- (351 / 2)))) = Fin (- 46) \<and>
   idx regional (Fin 2) (Fin (- 46)) = Fin 14 \<and>
   idx regional (Fin 2) (Fin (- 45)) = Fin 15 \<and>
   windAt regional (replicate 20 (Fin 1)) (replicate 20 (Fin 1)) (Fin (- (351 / 2))) (Fin (17 / 2))
     = \<lparr> u = Fin 1, v = Fin 1 \<rparr> \<and>
   idxT regional (Fin 1) (Fin (- 46)) = Fin 14 \<and>
   safeGet regional (replicate 20 (Fin 1)) (Fin 2) (Fin (- 46)) = NaN"
proof -
  have "interp regional (replicate 20 (Fin 1)) (Fin 1) (Fin (- 46)) (Fin (1 / 2)) (Fin (1 / 2)) = Fin 1"
    by (simp add: interp_def neighbours_regional blend_def)
  then have "windAt regional (replicate 20 (Fin 1)) (replicate 20 (Fin 1)) (Fin (- (351 / 2)))
      (Fin (17 / 2)) = \<lparr> u = Fin 1, v = Fin 1 \<rparr>"
    by (simp add: windAt_def Let_def gridI_regional gridJ_regional)
  then show ?thesis
    by (simp add: gridI_regional gridJ_regional idx_regional idxT_regional safeGet_regional)
      (simp add: regional_def)
qed

section \<open>Kelvin input and the clamp\<close>

lemma tempColorScale_Fin:
  "tempColorScale (Fin x) al =
     (case tempRamp ((max (- 80) (min 50 (if 100 < x then x - 27315 / 100 else x)) + 80) / 130) of
        (r, g, b) \<Rightarrow>
          (Fin (of_int r), Fin (of_int g), Fin (of_int b), jfloor (jmul al (Fin 255))))"
  by (simp add: tempColorScale_def tempNorm_def clampedTemp_def tempC_def)

lemma tempRamp_yellow_orange: "78 / 100 \<le> t \<Longrightarrow> t < 86 / 100 \<Longrightarrow> fst (tempRamp t) = 255"
  by (simp add: tempRamp_def Let_def mround_def)

text \<open>
  C8. \<open>tempColorScale\<close> takes a finite input above 100 as Kelvin: its colour is that of
  the ramp at \<open>(clamp (x - 273.15) + 80) / 130\<close> with the clamp to \<open>[-80, 50]\<close>, so up to
  373.15 it is the colour of the Celsius input \<open>x - 273.15\<close>; an input of at most 100 is
  clamped as it is, so every input from 50 to 100 has the colour of 50 and every input
  below -80 that of -80. The input 300 has the colour of 26.85, whose \<open>t\<close> lies in
  \<open>[0.78, 0.86)\<close>, the yellow-to-orange segment, where the red channel is 255; the colour
  is (255, 198, 39) with the alpha byte \<open>floor (alpha * 255)\<close>. A non-finite input gives
  (0, 0, 0, 0).
\<close>

theorem tempColorScale_kelvin:
  "(100 < x \<longrightarrow>
      tempColorScale (Fin x) al =
        (case tempRamp ((max (- 80) (min 50 (x - 27315 / 100)) + 80) / 130) of
           (r, g, b) \<Rightarrow>
             (Fin (of_int r), Fin (of_int g), Fin (of_int b), jfloor (jmul al (Fin 255))))) \<and>
   (100 < x \<and> x \<le> 100 + 27315 / 100 \<longrightarrow>
      tempColorScale (Fin x) al = tempColorScale (Fin (x - 27315 / 100)) al) \<and>
   (c \<le> 100 \<longrightarrow>
      tempColorScale (Fin c) al =
        (case tempRamp ((max (- 80) (min 50 c) + 80) / 130) of
           (r, g, b) \<Rightarrow>
             (Fin (of_int r), Fin (of_int g), Fin (of_int b), jfloor (jmul al (Fin 255))))) \<and>
   (50 \<le> c \<and> c \<le> 100 \<longrightarrow> tempColorScale (Fin c) al = tempColorScale (Fin 50) al) \<and>
   (c \<le> - 80 \<longrightarrow> tempColorScale (Fin c) al = tempColorScale (Fin (- 80)) al) \<and>
   tempColorScale (Fin 300) al = tempColorScale (Fin (2685 / 100)) al \<and>
   78 / 100 \<le> (2685 / 100 + 80) / (130 :: real) \<and> (2685 / 100 + 80) / (130 :: real) < 86 / 100 \<and>
   (78 / 100 \<le> t \<and> t < 86 / 100 \<longrightarrow> fst (tempRamp t) = 255) \<and>
   tempColorScale (Fin 300) al = (Fin 255, Fin 198, Fin 39, jfloor (jmul al (Fin 255))) \<and>
   (\<not> isFinite y \<longrightarrow> tempColorScale y al = (Fin 0, Fin 0, Fin 0, Fin 0))"
proof -
  have 1: "100 < x \<longrightarrow>
      tempColorScale (Fin x) al =
        (case tempRamp ((max (- 80) (min 50 (x - 27315 / 100)) + 80) / 130) of
           (r, g, b) \<Rightarrow>
             (Fin (of_int r), Fin (of_int g), Fin (of_int b), jfloor (jmul al (Fin 255))))"
    by (simp add: tempColorScale_Fin)
  have 2: "100 < x \<and> x \<le> 100 + 27315 / 100 \<longrightarrow>
      tempColorScale (Fin x) al = tempColorScale (Fin (x - 27315 / 100)) al"
    by (simp add: tempColorScale_Fin)
  have 3: "c \<le> 100 \<longrightarrow>
      tempColorScale (Fin c) al =
        (case tempRamp ((max (- 80) (min 50 c) + 80) / 130) of
           (r, g, b) \<Rightarrow>
             (Fin (of_int r), Fin (of_int g), Fin (of_int b), jfloor (jmul al (Fin 255))))"
    by (simp add: tempColorScale_Fin)
  have 4: "50 \<le> c \<and> c \<le> 100 \<longrightarrow> tempColorScale (Fin c) al = tempColorScale (Fin 50) al"
    by (simp add: tempColorScale_Fin)
  have 5: "c \<le> - 80 \<longrightarrow> tempColorScale (Fin c) al = tempColorScale (Fin (- 80)) al"
    by (simp add: tempColorScale_Fin)
  have 6: "tempColorScale (Fin 300) al = tempColorScale (Fin (2685 / 100)) al"
    by (simp add: tempColorScale_Fin)
  have 7: "78 / 100 \<le> t \<and> t < 86 / 100 \<longrightarrow> fst (tempRamp t) = 255"
    by (simp add: tempRamp_yellow_orange)
  have 8: "\<not> isFinite y \<longrightarrow> tempColorScale y al = (Fin 0, Fin 0, Fin 0, Fin 0)"
    by (simp add: tempColorScale_not_finite)
  from 1 2 3 4 5 6 7 8 tempColorScale_300 [of al] show ?thesis by simp
qed

theorem tempColorScale_kelvin_witness:
  "(100 :: real) < 300 \<and> (300 :: real) \<le> 100 + 27315 / 100 \<and>
   tempColorScale (Fin 300) (Fin 1) = tempColorScale (Fin (300 - 27315 / 100)) (Fin 1) \<and>
   (50 :: real) \<le> 60 \<and> (60 :: real) \<le> 100 \<and>
   tempColorScale (Fin 60) (Fin 1) = tempColorScale (Fin 50) (Fin 1) \<and>
   tempColorScale (Fin 50) (Fin 1) = (Fin 180, Fin 10, Fin 5, Fin 255) \<and>
   (78 / 100 :: real) \<le> 8 / 10 \<and> (8 / 10 :: real) < 86 / 100 \<and> fst (tempRamp (8 / 10)) = 255 \<and>
   \<not> isFinite NaN \<and> tempColorScale NaN (Fin 1) = (Fin 0, Fin 0, Fin 0, Fin 0) \<and>
   tempColorScale (Fin 300) (Fin 1) = (Fin 255, Fin 198, Fin 39, Fin 255)"
proof -
  note T = tempColorScale_kelvin [of 300 "Fin 1" 60 "8 / 10" NaN]
  have p: "(100 :: real) < 300 \<and> (300 :: real) \<le> 100 + 27315 / 100"
    "(50 :: real) \<le> 60 \<and> (60 :: real) \<le> 100"
    "(78 / 100 :: real) \<le> 8 / 10 \<and> (8 / 10 :: real) < 86 / 100"
    "\<not> isFinite NaN" by simp_all
  have k: "tempColorScale (Fin 300) (Fin 1) = tempColorScale (Fin (300 - 27315 / 100)) (Fin 1)"
    using T p(1) by blast
  have c: "tempColorScale (Fin 60) (Fin 1) = tempColorScale (Fin 50) (Fin 1)"
    using T p(2) by blast
  have r: "fst (tempRamp (8 / 10)) = 255" using T p(3) by blast
  have n: "tempColorScale NaN (Fin 1) = (Fin 0, Fin 0, Fin 0, Fin 0)" using T p(4) by blast
  have v: "tempColorScale (Fin 300) (Fin 1) =
      (Fin 255, Fin 198, Fin 39, jfloor (jmul (Fin 1) (Fin 255)))" using T by blast
  have a: "tempColorScale (Fin 50) (Fin 1) = (Fin 180, Fin 10, Fin 5, Fin 255)"
    by (simp add: tempColorScale_Fin tempRamp_def Let_def mround_def)
  have v': "tempColorScale (Fin 300) (Fin 1) = (Fin 255, Fin 198, Fin 39, Fin 255)"
    unfolding v by simp
  from p k c r n a v' show ?thesis by blast
qed

section \<open>Pixels the overlay pass paints\<close>

lemma fold_obs_unchanged:
  assumes "\<And>x b. x \<in> set xs \<Longrightarrow> obs (f x b) = obs b"
  shows "obs (fold f xs b) = obs b"
  using assms by (induction xs arbitrary: b) simp_all

lemma fold_inv:
  assumes "\<And>x b. x \<in> set xs \<Longrightarrow> P b \<Longrightarrow> P (f x b)" and "P b"
  shows "P (fold f xs b)"
  using assms by (induction xs arbitrary: b) simp_all

lemma fold_obs_set:
  assumes "distinct xs" and "x0 \<in> set xs"
    and "\<And>x b. x \<in> set xs \<Longrightarrow> x \<noteq> x0 \<Longrightarrow> obs (f x b) = obs b"
    and "\<And>b. P b \<Longrightarrow> obs (f x0 b) = r"
    and "\<And>x b. x \<in> set xs \<Longrightarrow> P b \<Longrightarrow> P (f x b)"
    and "P b"
  shows "obs (fold f xs b) = r"
  using assms
proof (induction xs arbitrary: b)
  case Nil
  then show ?case by simp
next
  case (Cons x xs)
  show ?case
  proof (cases "x = x0")
    case True
    with Cons.prems(1) have "x0 \<notin> set xs" by simp
    then have "obs (fold f xs (f x0 b)) = obs (f x0 b)"
      using Cons.prems(3) by (intro fold_obs_unchanged) auto
    then show ?thesis using True Cons.prems(4,6) by simp
  next
    case False
    with Cons.prems(2) have "x0 \<in> set xs" by simp
    moreover have "P (f x b)" using Cons.prems(5,6) by simp
    moreover have "distinct xs" using Cons.prems(1) by simp
    ultimately have "obs (fold f xs (f x b)) = r"
      using Cons.prems(3,4,5) by (intro Cons.IH) auto
    then show ?thesis by simp
  qed
qed

lemma length_writePixel: "length (writePixel w px py c buf) = length buf"
  by (simp add: writePixel_def Let_def split: prod.splits)

lemma length_paintBlock: "length (paintBlock w h step x y col buf) = length buf"
  unfolding paintBlock_def
  by (intro fold_inv [where P = "\<lambda>b. length b = length buf"]) (simp_all add: length_writePixel)

lemma length_renderSample: "length (renderSample sc w h step x y buf) = length buf"
  by (simp add: renderSample_def length_paintBlock split: option.splits)

lemma pixelAt_writePixel_other:
  assumes "px < w" and "qx < w" and "(qx, qy) \<noteq> (px, py)"
  shows "pixelAt w (writePixel w qx qy c buf) px py = pixelAt w buf px py"
  using writePixel_other [OF assms, of 0 c buf] writePixel_other [OF assms, of 1 c buf]
    writePixel_other [OF assms, of 2 c buf] writePixel_other [OF assms, of 3 c buf]
  by (simp add: pixelAt_def Let_def)

lemma pixelAt_writePixel_same:
  assumes "(py * w + px) * 4 + 3 < length buf"
  shows "pixelAt w (writePixel w px py c buf) px py = c"
  using assms by (cases c) (simp add: pixelAt_def writePixel_def Let_def)

lemma pixelAt_paintBlock_other:
  assumes "px < w" and "\<not> (x \<le> px \<and> px < x + step \<and> y \<le> py \<and> py < y + step)"
  shows "pixelAt w (paintBlock w h step x y col buf) px py = pixelAt w buf px py"
  using paintBlock_other [OF assms(1) _ assms(2), of 0 h col buf]
    paintBlock_other [OF assms(1) _ assms(2), of 1 h col buf]
    paintBlock_other [OF assms(1) _ assms(2), of 2 h col buf]
    paintBlock_other [OF assms(1) _ assms(2), of 3 h col buf]
  by (simp add: pixelAt_def Let_def)

lemma pixelAt_renderSample_other:
  assumes "px < w" and "\<not> (x \<le> px \<and> px < x + step \<and> y \<le> py \<and> py < y + step)"
  shows "pixelAt w (renderSample sc w h step x y buf) px py = pixelAt w buf px py"
  using assms by (simp add: renderSample_def pixelAt_paintBlock_other split: option.splits)

lemma pixelAt_paintBlock_own:
  assumes "px < w" and "py < h" and "length buf = w * h * 4"
    and "x \<le> px" and "px < x + step" and "y \<le> py" and "py < y + step"
  shows "pixelAt w (paintBlock w h step x y col buf) px py = col (px - x) (py - y)"
  unfolding paintBlock_def
proof (rule fold_obs_set [where P = "\<lambda>b. length b = w * h * 4" and ?x0.0 = "px - x"
      and obs = "\<lambda>b. pixelAt w b px py"])
  show "distinct [0..<min step (w - x)]" by simp
  show "px - x \<in> set [0..<min step (w - x)]" using assms(1,4,5) by auto
  show "length buf = w * h * 4" by (rule assms(3))
next
  fix ox b
  assume "ox \<in> set [0..<min step (w - x)]" and "ox \<noteq> px - x"
  then have "x + ox < w" and ne: "x + ox \<noteq> px" using assms(4) by auto
  then show "pixelAt w (fold (\<lambda>oy. writePixel w (x + ox) (y + oy) (col ox oy))
                 [0..<min step (h - y)] b) px py = pixelAt w b px py"
    using assms(1)
    by (intro fold_obs_unchanged [where obs = "\<lambda>b. pixelAt w b px py"] pixelAt_writePixel_other)
      simp_all
next
  fix ox and b :: "nat list"
  assume "ox \<in> set [0..<min step (w - x)]" and "length b = w * h * 4"
  then show "length (fold (\<lambda>oy. writePixel w (x + ox) (y + oy) (col ox oy))
                 [0..<min step (h - y)] b) = w * h * 4"
    by (intro fold_inv [where P = "\<lambda>b. length b = w * h * 4"]) (simp_all add: length_writePixel)
next
  fix b :: "nat list"
  assume len: "length b = w * h * 4"
  have px: "x + (px - x) = px" using assms(4) by simp
  show "pixelAt w (fold (\<lambda>oy. writePixel w (x + (px - x)) (y + oy) (col (px - x) oy))
          [0..<min step (h - y)] b) px py = col (px - x) (py - y)"
    unfolding px
  proof (rule fold_obs_set [where P = "\<lambda>b. length b = w * h * 4" and ?x0.0 = "py - y"
        and obs = "\<lambda>b. pixelAt w b px py"])
    show "distinct [0..<min step (h - y)]" by simp
    show "py - y \<in> set [0..<min step (h - y)]" using assms(2,6,7) by auto
    show "length b = w * h * 4" by (rule len)
  next
    fix oy c
    assume "oy \<in> set [0..<min step (h - y)]" and "oy \<noteq> py - y"
    then have "(px, y + oy) \<noteq> (px, py)" using assms(6) by auto
    then show "pixelAt w (writePixel w px (y + oy) (col (px - x) oy) c) px py = pixelAt w c px py"
      using assms(1) by (intro pixelAt_writePixel_other) simp_all
  next
    fix oy c
    assume "length (c :: nat list) = w * h * 4"
    then show "length (writePixel w px (y + oy) (col (px - x) oy) c) = w * h * 4"
      by (simp add: length_writePixel)
  next
    fix c :: "nat list"
    assume l: "length c = w * h * 4"
    have "(py * w + px) * 4 + 3 < length c"
      using pixel_index_bound [OF assms(1,2), of 3] l by simp
    moreover have "y + (py - y) = py" using assms(6) by simp
    ultimately show "pixelAt w (writePixel w px (y + (py - y)) (col (px - x) (py - y)) c) px py =
        col (px - x) (py - y)"
      by (simp add: pixelAt_writePixel_same)
  qed
qed

lemma distinct_samples: "distinct (samples step n)"
  by (simp add: samples_def)

lemma origin_in_samples:
  assumes "0 < step" and "px < n"
  shows "px - px mod step \<in> set (samples step n)"
proof -
  have "(px - px mod step) mod step = 0"
    by (simp add: minus_mod_eq_mult_div)
  moreover have "px - px mod step < n" using assms(2) by (simp add: less_imp_diff_less)
  ultimately show ?thesis by (simp add: samples_def)
qed

lemma pass_painted:
  assumes "px < w" and "py < h" and "0 < step" and "length buf = w * h * 4"
    and "sampleHit (camPos sc) (rayDirection sc (px - px mod step) (py - py mod step)) = Some q"
    and "shade sc (px - px mod step) (py - py mod step) q = Some col"
  shows "pixelAt w
           (fold (\<lambda>x. fold (\<lambda>y. renderSample sc w h step x y) (samples step h))
              (samples step w) buf) px py =
         col (px mod step) (py mod step)"
proof (rule fold_obs_set [where P = "\<lambda>b. length b = w * h * 4" and ?x0.0 = "px - px mod step"
      and obs = "\<lambda>b. pixelAt w b px py"])
  show "distinct (samples step w)" by (rule distinct_samples)
  show "px - px mod step \<in> set (samples step w)" by (rule origin_in_samples [OF assms(3,1)])
  show "length buf = w * h * 4" by (rule assms(4))
next
  fix x b
  assume "x \<in> set (samples step w)" and ne: "x \<noteq> px - px mod step"
  then have m: "x mod step = 0" by (simp add: samples_def)
  have out: "\<not> (x \<le> px \<and> px < x + step \<and> y \<le> py \<and> py < y + step)" for y
    using block_origin [OF assms(3) m] ne by auto
  show "pixelAt w (fold (\<lambda>y. renderSample sc w h step x y) (samples step h) b) px py =
        pixelAt w b px py"
    using assms(1) out
    by (intro fold_obs_unchanged [where obs = "\<lambda>b. pixelAt w b px py"]
        pixelAt_renderSample_other) simp_all
next
  fix x b
  assume "length (b :: nat list) = w * h * 4"
  then show "length (fold (\<lambda>y. renderSample sc w h step x y) (samples step h) b) = w * h * 4"
    by (intro fold_inv [where P = "\<lambda>b. length b = w * h * 4"]) (simp_all add: length_renderSample)
next
  fix b :: "nat list"
  assume len: "length b = w * h * 4"
  let ?bx = "px - px mod step"
  let ?by = "py - py mod step"
  show "pixelAt w (fold (\<lambda>y. renderSample sc w h step ?bx y) (samples step h) b) px py =
        col (px mod step) (py mod step)"
  proof (rule fold_obs_set [where P = "\<lambda>b. length b = w * h * 4" and ?x0.0 = ?by
        and obs = "\<lambda>b. pixelAt w b px py"])
    show "distinct (samples step h)" by (rule distinct_samples)
    show "?by \<in> set (samples step h)" by (rule origin_in_samples [OF assms(3,2)])
    show "length b = w * h * 4" by (rule len)
  next
    fix y c
    assume "y \<in> set (samples step h)" and ne: "y \<noteq> ?by"
    then have m: "y mod step = 0" by (simp add: samples_def)
    have "\<not> (?bx \<le> px \<and> px < ?bx + step \<and> y \<le> py \<and> py < y + step)"
      using block_origin [OF assms(3) m] ne by auto
    then show "pixelAt w (renderSample sc w h step ?bx y c) px py = pixelAt w c px py"
      using assms(1) by (intro pixelAt_renderSample_other) simp_all
  next
    fix y c
    assume "length (c :: nat list) = w * h * 4"
    then show "length (renderSample sc w h step ?bx y c) = w * h * 4"
      by (simp add: length_renderSample)
  next
    fix c :: "nat list"
    assume l: "length c = w * h * 4"
    have in_block: "?bx \<le> px" "px < ?bx + step" "?by \<le> py" "py < ?by + step"
      using assms(3) by (simp_all add: less_diff_conv trans_less_add2)
    have "px - ?bx = px mod step" "py - ?by = py mod step" by simp_all
    then show "pixelAt w (renderSample sc w h step ?bx ?by c) px py = col (px mod step) (py mod step)"
      using pixelAt_paintBlock_own [OF assms(1,2) l in_block, of col] assms(5,6)
      by (simp add: renderSample_def)
  qed
qed

lemma wide_step: "baseStep Wind 1200 1200 = 2"
  by (simp add: baseStep_def)

lemma wide_miss: "sampleHit (camPos wideScene) (rayDirection wideScene 1 0) = None"
  by (simp add: wideScene_def demo_no_hit)

lemma wide_hit:
  "sampleHit (camPos wideScene) (rayDirection wideScene 0 0) = Some (Fin 0, Fin 0, Fin 200)"
  by (simp add: wideScene_def demo_hit)

lemma wide_pixel:
  "pixelAt 1200
     (fold (\<lambda>x. fold (\<lambda>y. renderSample wideScene 1200 1200 2 x y) (samples 2 1200))
        (samples 2 1200) (replicate (1200 * 1200 * 4) 0)) 1 0 = (9, 9, 9, 9)"
proof -
  have h: "sampleHit (camPos wideScene) (rayDirection wideScene (1 - 1 mod 2) (0 - 0 mod 2)) =
      Some (Fin 0, Fin 0, Fin 200)"
    using wide_hit by simp
  have s: "shade wideScene (1 - 1 mod 2) (0 - 0 mod 2) (Fin 0, Fin 0, Fin 200) =
      Some (\<lambda>ox oy. (9, 9, 9, 9))"
    by (simp add: wideScene_def)
  have l: "length (replicate (1200 * 1200 * 4) (0::nat)) = 1200 * 1200 * 4"
    by (rule length_replicate)
  show ?thesis
    using pass_painted [of 1 1200 0 1200 2 "replicate (1200 * 1200 * 4) 0" wideScene, OF _ _ _ l h s]
    by simp
qed

text \<open>
  Counterexample to C10 as stated. On a canvas of 1200 by 1200 pixels the step is 2. The
  ray through the screen point (1, 0) misses the globe, so that pixel fails the first of
  the three tests; the pass casts no ray for it, and writes it with the colour of its
  block, whose sample at (0, 0) hits.
\<close>

theorem overlay_counterexample:
  "baseStep Wind 1200 1200 = 2 \<and>
   sampleHit (camPos wideScene) (rayDirection wideScene 1 0) = None \<and>
   map_option (\<lambda>buf. pixelAt 1200 buf 1 0)
     (renderAirModeOverlay True Wind False wideScene 1200 1200) = Some (9, 9, 9, 9)"
proof -
  have "renderAirModeOverlay True Wind False wideScene 1200 1200 =
      Some (fold (\<lambda>x. fold (\<lambda>y. renderSample wideScene 1200 1200 2 x y) (samples 2 1200))
        (samples 2 1200) (replicate (1200 * 1200 * 4) 0))"
    unfolding renderAirModeOverlay_def Let_def wide_step by simp
  then show ?thesis
    using wide_step wide_miss wide_pixel by (simp only: option.map simp_thms)
qed

lemma roundEven_of_int [simp]: "roundEven (of_int m) = m"
  by (simp add: roundEven_def)

lemma powr_powi: "2 powr (real_of_int e) = (2::real) powi e"
  by (simp add: powr_real_of_int')

lemma powr_powi_Suc: "2 powr (real_of_int e + 1) = (2::real) powi (e + 1)"
  using powr_powi [of "e + 1"] by simp

lemma ulp_eq:
  assumes "2 powi e \<le> \<bar>x\<bar>" and "\<bar>x\<bar> < 2 powi (e + 1)"
  shows "ulp x = 2 powi (max e (- 1022) - 52)"
proof -
  have pos: "0 < \<bar>x\<bar>" using assms(1) by (smt (verit) zero_less_power_int)
  have "\<lfloor>log 2 \<bar>x\<bar>\<rfloor> = e"
    using assms pos by (simp add: floor_log_eq_powr_iff powr_powi powr_powi_Suc)
  then show ?thesis by (simp add: ulp_def)
qed

lemma log2_bounds:
  assumes "x \<noteq> 0"
  shows "2 powi \<lfloor>log 2 \<bar>x\<bar>\<rfloor> \<le> \<bar>x\<bar>" and "\<bar>x\<bar> < 2 powi (\<lfloor>log 2 \<bar>x\<bar>\<rfloor> + 1)"
proof -
  have pos: "0 < \<bar>x\<bar>" using assms by simp
  have "2 powr (of_int \<lfloor>log 2 \<bar>x\<bar>\<rfloor>) \<le> \<bar>x\<bar> \<and> \<bar>x\<bar> < 2 powr (of_int (\<lfloor>log 2 \<bar>x\<bar>\<rfloor> + 1))"
    using floor_log_eq_powr_iff [of "\<bar>x\<bar>" 2 "\<lfloor>log 2 \<bar>x\<bar>\<rfloor>"] pos by simp
  then show "2 powi \<lfloor>log 2 \<bar>x\<bar>\<rfloor> \<le> \<bar>x\<bar>" and "\<bar>x\<bar> < 2 powi (\<lfloor>log 2 \<bar>x\<bar>\<rfloor> + 1)"
    by (simp_all add: powr_powi powr_powi_Suc)
qed

lemma nearest_dyadic:
  assumes "\<bar>m\<bar> < 2 ^ 53" and "- 1074 \<le> s"
  shows "nearest (of_int m * 2 powi s) = of_int m * 2 powi s"
proof (cases "m = 0")
  case True
  then show ?thesis by (simp add: nearest_def)
next
  case False
  define x :: real where "x = of_int m * 2 powi s"
  define e where "e = \<lfloor>log 2 \<bar>x\<bar>\<rfloor>"
  define E where "E = max e (- 1022)"
  define d where "d = nat (s + 52 - E)"
  have x0: "x \<noteq> 0" using False by (simp add: x_def)
  have lo: "2 powi e \<le> \<bar>x\<bar>" unfolding e_def by (rule log2_bounds(1) [OF x0])
  have "\<bar>real_of_int m\<bar> < 2 ^ 53"
    using assms(1) by (metis of_int_abs of_int_less_numeral_power_cancel_iff)
  then have "\<bar>real_of_int m\<bar> * 2 powi s < 2 ^ 53 * 2 powi s"
    by (intro mult_strict_right_mono) simp_all
  also have "\<dots> = 2 powi (53 + s)"
    by (simp add: power_int_add)
  finally have hi: "\<bar>x\<bar> < 2 powi (53 + s)"
    by (simp add: x_def abs_mult power_int_abs)
  have "e < 53 + s"
  proof (rule ccontr)
    assume "\<not> e < 53 + s"
    then have "(2::real) powi (53 + s) \<le> 2 powi e"
      by (intro power_int_increasing) simp_all
    with lo hi show False by simp
  qed
  then have E: "E \<le> s + 52" using assms(2) by (simp add: E_def)
  have u: "ulp x = 2 powi (E - 52)" by (simp add: ulp_def E_def e_def)
  have "s = (E - 52) + int d" using E by (simp add: d_def)
  then have "(2::real) powi s = 2 powi (E - 52) * 2 powi (int d)"
    by (metis power_int_add zero_neq_numeral)
  then have p: "(2::real) powi s = 2 powi (E - 52) * 2 ^ d" by simp
  have xe: "x = of_int (m * 2 ^ d) * 2 powi (E - 52)"
    by (simp add: x_def p)
  have "x / 2 powi (E - 52) = of_int (m * 2 ^ d)"
    by (subst xe) simp
  then have q: "x / ulp x = of_int (m * 2 ^ d)" by (simp only: u)
  have "nearest x = of_int (m * 2 ^ d) * ulp x"
    using x0 unfolding nearest_def q by (simp only: roundEven_of_int if_False)
  also have "\<dots> = x" by (simp only: u xe [symmetric])
  finally show ?thesis by (simp only: x_def)
qed

lemma nearest_of_int:
  assumes "\<bar>m\<bar> < 2 ^ 53"
  shows "nearest (of_int m) = of_int m"
  using nearest_dyadic [OF assms, of 0] by simp

lemma nearest_numeral [simp]:
  "numeral k < (2::int) ^ 53 \<Longrightarrow> nearest (numeral k) = numeral k"
  "numeral k < (2::int) ^ 53 \<Longrightarrow> nearest (- numeral k) = - numeral k"
  using nearest_of_int [of "numeral k"] nearest_of_int [of "- numeral k"] by simp_all

lemma nearest_0 [simp]: "nearest 0 = 0"
  by (simp add: nearest_def)

lemma nearest_1 [simp]: "nearest 1 = 1"
  using nearest_of_int [of 1] by simp

lemma nearest_frac:
  assumes "\<bar>m\<bar> < 2 ^ 53" and "k \<le> 1074"
  shows "nearest (of_int m / 2 ^ k) = of_int m / 2 ^ k"
  using nearest_dyadic [OF assms(1), of "- int k"] assms(2)
  by (simp add: power_int_minus field_simps)

section \<open>Sampling in double precision\<close>

lemma round64_Fin:
  "\<bar>nearest r\<bar> < 2 ^ 1024 \<Longrightarrow> round64 (Fin r) = Fin (nearest r)"
  by (simp add: round64_def abs_less_iff)

lemma round64_NaN [simp]: "round64 NaN = NaN"
  by (simp add: round64_def)

lemma dmul_NaN [simp]: "dmul NaN y = NaN" "dmul x NaN = NaN"
  by (simp_all add: dmul_def)

lemma dadd_NaN [simp]: "dadd NaN y = NaN" "dadd x NaN = NaN"
  by (simp_all add: dadd_def)

lemma blend64_NaN: "blend64 NaN g10 g01 g11 fi fj = NaN"
  by (simp add: blend64_def)

lemma fmod_small:
  assumes "0 \<le> a" and "a < b"
  shows "fmod a b = a"
proof -
  have "0 \<le> a / b" "a / b < 1" using assms by simp_all
  then have "\<lfloor>a / b\<rfloor> = 0" by linarith
  then show ?thesis using \<open>0 \<le> a / b\<close> by (simp add: fmod_def trunc_def)
qed

lemma nearest_tie: "nearest (380 - 1 / 2 ^ 45) = 380"
proof -
  have u: "ulp (380 - 1 / 2 ^ 45) = 2 powi (max 8 (- 1022) - 52)"
    by (rule ulp_eq) simp_all
  then have u: "ulp (380 - 1 / 2 ^ 45) = 1 / 2 ^ 44"
    by (simp add: power_int_minus_divide)
  have q: "(380 - 1 / 2 ^ 45) / (1 / 2 ^ 44) = (13370061393756159 / 2 :: real)"
    by simp
  have f: "\<lfloor>13370061393756159 / 2 :: real\<rfloor> = 6685030696878079"
    by simp
  have "roundEven (13370061393756159 / 2) = 6685030696878080"
    unfolding roundEven_def Let_def f by simp
  then show ?thesis
    unfolding nearest_def u q by simp
qed

lemma round64_exact:
  assumes "nearest r = r" and "\<bar>r\<bar> \<le> 100000"
  shows "round64 (Fin r) = Fin r"
proof -
  have "(100000::real) < 2 ^ 1024" by simp
  with assms(2) have "\<bar>r\<bar> < 2 ^ 1024" by linarith
  then show ?thesis using assms(1) by (simp add: round64_Fin)
qed

lemma nearest_below_int:
  assumes "\<bar>k\<bar> \<le> 255"
  shows "nearest (of_int k - 1 / 2 ^ 45) = of_int k - 1 / 2 ^ 45"
proof -
  have "\<bar>k * 2 ^ 45 - 1\<bar> < 2 ^ 53" using assms by simp
  from nearest_frac [OF this, of 45]
  show ?thesis by (simp add: field_simps)
qed

lemma round64_int:
  assumes "\<bar>k\<bar> \<le> 100000"
  shows "round64 (Fin (of_int k)) = Fin (of_int k)"
proof -
  have "\<bar>k\<bar> < 2 ^ 53" using assms by simp
  then have "nearest (of_int k) = of_int k" by (rule nearest_of_int)
  moreover have "\<bar>real_of_int k\<bar> \<le> 100000" using assms by linarith
  ultimately show ?thesis by (rule round64_exact)
qed

lemma round64_below_int:
  assumes "\<bar>k\<bar> \<le> 255"
  shows "round64 (Fin (of_int k - 1 / 2 ^ 45)) = Fin (of_int k - 1 / 2 ^ 45)"
proof -
  have "\<bar>real_of_int k\<bar> \<le> 255" using assms by linarith
  then have "\<bar>real_of_int k - 1 / 2 ^ 45\<bar> \<le> 100000" by simp
  with nearest_below_int [OF assms] show ?thesis by (rule round64_exact)
qed

lemma round64_half:
  assumes "\<bar>k\<bar> \<le> 100000"
  shows "round64 (Fin (of_int k / 2)) = Fin (of_int k / 2)"
proof -
  have "\<bar>k\<bar> < 2 ^ 53" using assms by simp
  from nearest_frac [OF this, of 1] have "nearest (of_int k / 2) = of_int k / 2" by simp
  moreover have "\<bar>real_of_int k\<bar> \<le> 100000" using assms by linarith
  then have "\<bar>real_of_int k / 2\<bar> \<le> 100000" by simp
  ultimately show ?thesis by (rule round64_exact)
qed

lemma round64_tie: "round64 (Fin (380 - 1 / 2 ^ 45)) = Fin 380"
  unfolding round64_def jsnum.case nearest_tie by simp

lemma edgeLon_double: "round64 (Fin edgeLon) = Fin edgeLon"
  using round64_below_int [of "- 160"] by (simp add: edgeLon_def)

lemma edgeLon_shift: "dadd (Fin edgeLon) (Fin 360) = Fin (200 - 1 / 2 ^ 45)"
  using round64_below_int [of 200] by (simp add: edgeLon_def dadd_def)

lemma normalizeLon64_edge: "normalizeLon64 (Fin edgeLon) = Fin edgeLon"
proof -
  have a: "dadd (Fin edgeLon) (Fin 180) = Fin (20 - 1 / 2 ^ 45)"
    using round64_below_int [of 20] by (simp add: edgeLon_def dadd_def)
  have b: "jmod (Fin (20 - 1 / 2 ^ 45)) (Fin 360) = Fin (20 - 1 / 2 ^ 45)"
    by (simp add: fmod_small)
  have c: "dsub (Fin (20 - 1 / 2 ^ 45)) (Fin 180) = Fin edgeLon"
    using round64_below_int [of "- 160"] by (simp add: edgeLon_def dsub_def)
  show ?thesis
    unfolding normalizeLon64_def Let_def a b c by (simp add: edgeLon_def jgt_def)
qed

lemma normalizeLon64_shifted: "normalizeLon64 (Fin (200 - 1 / 2 ^ 45)) = Fin (- 160)"
proof -
  have a: "dadd (Fin (200 - 1 / 2 ^ 45)) (Fin 180) = Fin 380"
    using round64_tie by (simp add: dadd_def)
  have b: "jmod (Fin 380) (Fin 360) = Fin 20"
    by (simp add: fmod_def trunc_def)
  have c: "dsub (Fin 20) (Fin 180) = Fin (- 160)"
    using round64_int [of "- 160"] by (simp add: dsub_def)
  show ?thesis
    unfolding normalizeLon64_def Let_def a b c by (simp add: jgt_def)
qed

lemma dadd_int:
  "\<bar>a + b\<bar> \<le> 100000 \<Longrightarrow> dadd (Fin (of_int a)) (Fin (of_int b)) = Fin (of_int (a + b))"
  using round64_int [of "a + b"] by (simp add: dadd_def)

lemma dsub_int:
  "\<bar>a - b\<bar> \<le> 100000 \<Longrightarrow> dsub (Fin (of_int a)) (Fin (of_int b)) = Fin (of_int (a - b))"
  using round64_int [of "a - b"] by (simp add: dsub_def)

lemma dmul_int:
  "\<bar>a * b\<bar> \<le> 100000 \<Longrightarrow> dmul (Fin (of_int a)) (Fin (of_int b)) = Fin (of_int (a * b))"
  using round64_int [of "a * b"] by (simp add: dmul_def)

lemma gridI64_edge: "gridI64 globe1 (Fin edgeLon) = Fin (200 - 1 / 2 ^ 45)"
proof -
  have a: "dsub (Fin edgeLon) (Fin 0) = Fin edgeLon"
    using edgeLon_double by (simp add: dsub_def)
  have b: "jmod (Fin (200 - 1 / 2 ^ 45)) (Fin 360) = Fin (200 - 1 / 2 ^ 45)"
    by (simp add: fmod_small)
  have c: "ddiv (Fin (200 - 1 / 2 ^ 45)) (Fin 1) = Fin (200 - 1 / 2 ^ 45)"
    using round64_below_int [of 200] by (simp add: ddiv_def)
  have g: "lo1 globe1 = Fin 0" "dx globe1 = Fin 1" by (simp_all add: globe1_def)
  show ?thesis
    unfolding gridI64_def normalizeLon64_edge g a edgeLon_shift b c by (rule refl)
qed

lemma gridI64_shifted: "gridI64 globe1 (Fin (200 - 1 / 2 ^ 45)) = Fin 200"
proof -
  have a: "dsub (Fin (- 160)) (Fin 0) = Fin (- 160)"
    using dsub_int [of "- 160" 0] by simp
  have a': "dadd (Fin (- 160)) (Fin 360) = Fin 200"
    using dadd_int [of "- 160" 360] by simp
  have b: "jmod (Fin 200) (Fin 360) = Fin 200"
    by (simp add: fmod_small)
  have c: "ddiv (Fin 200) (Fin 1) = Fin 200"
    using round64_int [of 200] by (simp add: ddiv_def)
  have g: "lo1 globe1 = Fin 0" "dx globe1 = Fin 1" by (simp_all add: globe1_def)
  show ?thesis
    unfolding gridI64_def normalizeLon64_shifted g a a' b c by (rule refl)
qed

lemma gridJ64_half: "gridJ64 globe1 (Fin (1 / 2)) = Fin (179 / 2)"
proof -
  have a: "dsub (Fin 90) (Fin (1 / 2)) = Fin (179 / 2)"
    using round64_half [of 179] by (simp add: dsub_def)
  have c: "ddiv (Fin (179 / 2)) (Fin 1) = Fin (179 / 2)"
    using round64_half [of 179] by (simp add: ddiv_def)
  have g: "la1 globe1 = Fin 90" "dy globe1 = Fin 1" by (simp_all add: globe1_def)
  show ?thesis
    unfolding gridJ64_def g a c by (rule refl)
qed

lemma idx64_globe1:
  assumes "0 \<le> j" and "j \<le> 180" and "0 \<le> i" and "i < 360"
  shows "idx64 globe1 (Fin (of_int j)) (Fin (of_int i)) = Fin (of_int (j * 360 + i))"
proof -
  have a: "dmul (Fin (of_int j)) (Fin 360) = Fin (of_int (j * 360))"
    using dmul_int [of j 360] assms by simp
  have b: "dadd (Fin (of_int i)) (Fin 360) = Fin (of_int i + 360)"
    using dadd_int [of i 360] assms by simp
  have "\<lfloor>(real_of_int i + 360) / 360\<rfloor> = 1"
    using assms(3,4) by (simp add: floor_eq_iff)
  then have c: "jmod (Fin (of_int i + 360)) (Fin 360) = Fin (of_int i)"
    using assms(3) by (simp add: fmod_def trunc_def)
  have d: "dadd (Fin (of_int (j * 360))) (Fin (of_int i)) = Fin (of_int (j * 360 + i))"
    using dadd_int [of "j * 360" i] assms by simp
  have g: "nx globe1 = Fin 360" by (simp add: globe1_def)
  show ?thesis unfolding idx64_def g a b c d by (rule refl)
qed

lemma neighbours64_edge:
  "neighbours64 globe1 gapField (Fin 89) (Fin 199) = [NaN, Fin 7, Fin 7, Fin 7]"
proof -
  have a: "dadd (Fin 89) (Fin 1) = Fin 90" "dadd (Fin 199) (Fin 1) = Fin 200"
    using dadd_int [of 89 1] dadd_int [of 199 1] by simp_all
  have i: "idx64 globe1 (Fin 89) (Fin 199) = Fin 32239"
    "idx64 globe1 (Fin 89) (Fin 200) = Fin 32240"
    "idx64 globe1 (Fin 90) (Fin 199) = Fin 32599"
    "idx64 globe1 (Fin 90) (Fin 200) = Fin 32600"
    using idx64_globe1 [of 89 199] idx64_globe1 [of 89 200] idx64_globe1 [of 90 199]
      idx64_globe1 [of 90 200] by simp_all
  show ?thesis
    unfolding neighbours64_def a i by (simp add: aget_def gapField_def)
qed

lemma neighbours64_shifted:
  "neighbours64 globe1 gapField (Fin 89) (Fin 200) = [Fin 7, Fin 7, Fin 7, Fin 7]"
proof -
  have a: "dadd (Fin 89) (Fin 1) = Fin 90" "dadd (Fin 200) (Fin 1) = Fin 201"
    using dadd_int [of 89 1] dadd_int [of 200 1] by simp_all
  have i: "idx64 globe1 (Fin 89) (Fin 200) = Fin 32240"
    "idx64 globe1 (Fin 89) (Fin 201) = Fin 32241"
    "idx64 globe1 (Fin 90) (Fin 200) = Fin 32600"
    "idx64 globe1 (Fin 90) (Fin 201) = Fin 32601"
    using idx64_globe1 [of 89 200] idx64_globe1 [of 89 201] idx64_globe1 [of 90 200]
      idx64_globe1 [of 90 201] by simp_all
  show ?thesis
    unfolding neighbours64_def a i by (simp add: aget_def gapField_def)
qed

lemma blend64_shifted:
  "blend64 (Fin 7) (Fin 7) (Fin 7) (Fin 7) (Fin 0) (Fin (1 / 2)) = Fin 7"
proof -
  have s: "dsub (Fin 1) (Fin 0) = Fin 1" "dsub (Fin 1) (Fin (1 / 2)) = Fin (1 / 2)"
    using dsub_int [of 1 0] round64_half [of 1] by (simp_all add: dsub_def)
  have m: "dmul (Fin 7) (Fin 1) = Fin 7" "dmul (Fin 7) (Fin 0) = Fin 0"
    "dmul (Fin 7) (Fin (1 / 2)) = Fin (7 / 2)" "dmul (Fin 0) (Fin (1 / 2)) = Fin 0"
    using dmul_int [of 7 1] dmul_int [of 7 0] round64_half [of 7] round64_int [of 0]
    by (simp_all add: dmul_def)
  have p: "dadd (Fin (7 / 2)) (Fin 0) = Fin (7 / 2)" "dadd (Fin (7 / 2)) (Fin (7 / 2)) = Fin 7"
    "dadd (Fin 7) (Fin 0) = Fin 7"
    using round64_half [of 7] round64_int [of 7] by (simp_all add: dadd_def)
  show ?thesis unfolding blend64_def s m p by (rule refl)
qed

lemma windAt64_edge:
  "windAt64 globe1 gapField gapField (Fin edgeLon) (Fin (1 / 2)) = \<lparr> u = NaN, v = NaN \<rparr>"
proof -
  have f: "jfloor (Fin (200 - 1 / 2 ^ 45)) = Fin 199" "jfloor (Fin (179 / 2)) = Fin 89"
    by (simp_all add: floor_eq_iff)
  show ?thesis
    unfolding windAt64_def Let_def gridI64_edge gridJ64_half f interp64_def neighbours64_edge
    by (simp add: blend64_NaN)
qed

lemma windAt64_shifted:
  "windAt64 globe1 gapField gapField (Fin (200 - 1 / 2 ^ 45)) (Fin (1 / 2)) =
     \<lparr> u = Fin 7, v = Fin 7 \<rparr>"
proof -
  have f: "jfloor (Fin 200) = Fin 200" "jfloor (Fin (179 / 2)) = Fin 89"
    by (simp_all add: floor_eq_iff)
  have d: "dsub (Fin 200) (Fin 200) = Fin 0" "dsub (Fin (179 / 2)) (Fin 89) = Fin (1 / 2)"
    using dsub_int [of 200 200] round64_half [of 1] by (simp_all add: dsub_def)
  show ?thesis
    unfolding windAt64_def Let_def gridI64_shifted gridJ64_half f d interp64_def
      neighbours64_shifted
    by (simp add: blend64_shifted)
qed

section \<open>Longitude wraparound in double precision\<close>

lemma fmod_shift:
  assumes "0 \<le> y \<or> y + 360 \<le> 0"
  shows "fmod (y + 360) 360 = fmod y 360"
proof -
  have e: "(y + 360) / 360 = y / 360 + 1" by simp
  have f: "\<lfloor>y / 360 + 1\<rfloor> = \<lfloor>y / 360\<rfloor> + 1" by simp
  have c: "\<lceil>y / 360 + 1\<rceil> = \<lceil>y / 360\<rceil> + 1" by simp
  from assms show ?thesis
  proof
    assume "0 \<le> y"
    then have "0 \<le> y / 360" "0 \<le> y / 360 + 1" by simp_all
    then show ?thesis unfolding fmod_def trunc_def e by (simp only: f if_True) simp
  next
    assume a: "y + 360 \<le> 0"
    then have n: "\<not> 0 \<le> y / 360" by simp
    show ?thesis
    proof (cases "y + 360 = 0")
      case True
      then have "y = - 360" by simp
      then show ?thesis by (simp add: fmod_def trunc_def)
    next
      case False
      with a have "\<not> 0 \<le> y / 360 + 1" by simp
      with n show ?thesis unfolding fmod_def trunc_def e by (simp only: c if_False) simp
    qed
  qed
qed

lemma fmod_small_neg:
  assumes "- b < a" and "a \<le> 0"
  shows "fmod a b = a"
proof -
  have b: "0 < b" using assms by simp
  then have "- 1 < a / b" "a / b \<le> 0" using assms by (simp_all add: field_simps)
  then have "\<lceil>a / b\<rceil> = 0" "\<lfloor>a / b\<rfloor> = 0 \<or> a / b < 0" by linarith+
  then show ?thesis by (auto simp: fmod_def trunc_def)
qed

lemma normalizeLon64_period:
  assumes "round64 (Fin x) = Fin x"
    and "dadd (Fin x) (Fin 180) = Fin (x + 180)"
    and "dadd (Fin x) (Fin 360) = Fin (x + 360)"
    and "dadd (Fin (x + 360)) (Fin 180) = Fin (x + 540)"
  shows "normalizeLon64 (Fin (x + 360)) = normalizeLon64 (Fin x)"
proof -
  have r: "round64 (Fin (x + 360)) = Fin (x + 360)"
    using assms(3) by (simp add: dadd_def)
  consider "0 \<le> x + 180" | "x + 540 \<le> 0" | "- 540 < x" "x < - 180" by linarith
  then show ?thesis
  proof cases
    case 1
    then have "fmod (x + 180 + 360) 360 = fmod (x + 180) 360" by (intro fmod_shift) simp
    then have "fmod (x + 540) 360 = fmod (x + 180) 360" by (simp add: add.assoc)
    then show ?thesis unfolding normalizeLon64_def assms(2,4) by simp
  next
    case 2
    then have "fmod (x + 180 + 360) 360 = fmod (x + 180) 360" by (intro fmod_shift) simp
    then have "fmod (x + 540) 360 = fmod (x + 180) 360" by (simp add: add.assoc)
    then show ?thesis unfolding normalizeLon64_def assms(2,4) by simp
  next
    case 3
    have a: "fmod (x + 180) 360 = x + 180" using 3 by (intro fmod_small_neg) simp_all
    have b: "fmod (x + 540) 360 = x + 540" using 3 by (intro fmod_small) simp_all
    have c: "dsub (Fin (x + 180)) (Fin 180) = Fin x"
      using assms(1) by (simp add: dsub_def)
    have "x + 540 - 180 = x + 360" by simp
    then have d: "dsub (Fin (x + 540)) (Fin 180) = Fin (x + 360)"
      using r by (simp only: dsub_def jsub_Fin)
    have "normalizeLon64 (Fin x) = Fin (x + 360)"
      unfolding normalizeLon64_def assms(2) Let_def using 3
      by (simp add: a c assms(3) jgt_def)
    moreover have "normalizeLon64 (Fin (x + 360)) = Fin (x + 360)"
      unfolding normalizeLon64_def assms(4) Let_def using 3
      by (simp add: b d jgt_def)
    ultimately show ?thesis by simp
  qed
qed

section \<open>Rounding is monotone\<close>

lemma roundEven_cases: "roundEven y = \<lfloor>y\<rfloor> \<or> roundEven y = \<lfloor>y\<rfloor> + 1 \<and> of_int \<lfloor>y\<rfloor> < y"
  by (auto simp: roundEven_def Let_def)

lemma roundEven_le:
  assumes "y \<le> of_int k"
  shows "roundEven y \<le> k"
proof -
  have f: "\<lfloor>y\<rfloor> \<le> k" using assms by (simp add: floor_le_iff)
  from roundEven_cases [of y] show ?thesis
  proof
    assume "roundEven y = \<lfloor>y\<rfloor>"
    with f show ?thesis by simp
  next
    assume a: "roundEven y = \<lfloor>y\<rfloor> + 1 \<and> of_int \<lfloor>y\<rfloor> < y"
    then have "of_int \<lfloor>y\<rfloor> < (of_int k :: real)" using assms by linarith
    then have "\<lfloor>y\<rfloor> < k" by simp
    with a show ?thesis by simp
  qed
qed

lemma roundEven_ge:
  assumes "of_int k \<le> y"
  shows "k \<le> roundEven y"
proof -
  have "k \<le> \<lfloor>y\<rfloor>" using assms by (simp add: le_floor_iff)
  with roundEven_cases [of y] show ?thesis by auto
qed

lemma roundEven_mono:
  assumes "y \<le> z"
  shows "roundEven y \<le> roundEven z"
proof (cases "\<lfloor>y\<rfloor> = \<lfloor>z\<rfloor>")
  case True
  then have "y - of_int \<lfloor>y\<rfloor> \<le> z - of_int \<lfloor>z\<rfloor>" using assms by simp
  then show ?thesis using True by (auto simp: roundEven_def Let_def)
next
  case False
  have "\<lfloor>y\<rfloor> \<le> \<lfloor>z\<rfloor>" using assms by (rule floor_mono)
  with False have "\<lfloor>y\<rfloor> + 1 \<le> \<lfloor>z\<rfloor>" by simp
  moreover have "roundEven y \<le> \<lfloor>y\<rfloor> + 1" using roundEven_cases [of y] by auto
  moreover have "\<lfloor>z\<rfloor> \<le> roundEven z" using roundEven_cases [of z] by auto
  ultimately show ?thesis by linarith
qed

lemma roundEven_minus: "roundEven (- y) = - roundEven y"
proof (cases "y = of_int \<lfloor>y\<rfloor>")
  case True
  then obtain k where "y = of_int k" ..
  then have "roundEven y = k" "roundEven (- y) = - k"
    using roundEven_of_int [of k] roundEven_of_int [of "- k"] by simp_all
  then show ?thesis by simp
next
  case False
  then have f: "\<lfloor>- y\<rfloor> = - \<lfloor>y\<rfloor> - 1"
    by (metis ceiling_altdef ceiling_def add_diff_cancel_right' minus_diff_eq
        uminus_add_conv_diff)
  have e: "even (- \<lfloor>y\<rfloor> - 1) = odd \<lfloor>y\<rfloor>" by simp
  show ?thesis
    unfolding roundEven_def Let_def f e by (auto simp: algebra_simps)
qed

lemma ulp_pos: "0 < ulp y"
  by (simp add: ulp_def)

lemma ulp_minus: "ulp (- y) = ulp y"
  by (simp add: ulp_def)

lemma nearest_minus: "nearest (- y) = - nearest y"
  by (simp add: nearest_def ulp_minus roundEven_minus)

lemma nearest_nonneg:
  assumes "0 \<le> y"
  shows "0 \<le> nearest y"
proof -
  have "of_int 0 \<le> y / ulp y" using assms ulp_pos [of y] by simp
  then have "0 \<le> roundEven (y / ulp y)" by (rule roundEven_ge)
  then show ?thesis using ulp_pos [of y] by (simp add: nearest_def)
qed

lemma ulp_expo:
  assumes "y \<noteq> 0"
  shows "\<exists>E. ulp y = 2 powi (E - 52) \<and> - 1022 \<le> E \<and> \<bar>y\<bar> < 2 powi (E + 1) \<and>
              (E = - 1022 \<or> 2 powi E \<le> \<bar>y\<bar>)"
proof -
  define e where "e = \<lfloor>log 2 \<bar>y\<bar>\<rfloor>"
  define E where "E = max e (- 1022)"
  have lo: "2 powi e \<le> \<bar>y\<bar>" and hi: "\<bar>y\<bar> < 2 powi (e + 1)"
    unfolding e_def by (rule log2_bounds [OF assms])+
  have "(2::real) powi (e + 1) \<le> 2 powi (E + 1)"
    by (intro power_int_increasing) (simp_all add: E_def)
  with hi have "\<bar>y\<bar> < 2 powi (E + 1)" by linarith
  moreover have "E = - 1022 \<or> 2 powi E \<le> \<bar>y\<bar>"
    using lo by (auto simp: E_def max_def)
  moreover have "ulp y = 2 powi (E - 52)" by (simp add: ulp_def E_def e_def)
  moreover have "- 1022 \<le> E" by (simp add: E_def)
  ultimately show ?thesis by blast
qed

lemma nearest_grid:
  assumes "ulp y = q" and "y \<noteq> 0"
  shows "nearest y = of_int (roundEven (y / q)) * q"
  using assms by (simp add: nearest_def)

lemma nearest_mono_pos:
  assumes "0 < y" and "y \<le> z"
  shows "nearest y \<le> nearest z"
proof -
  have z: "0 < z" using assms by linarith
  obtain Ey where Ey: "ulp y = 2 powi (Ey - 52)" "- 1022 \<le> Ey" "\<bar>y\<bar> < 2 powi (Ey + 1)"
    "Ey = - 1022 \<or> 2 powi Ey \<le> \<bar>y\<bar>"
    using ulp_expo [of y] assms(1) by auto
  obtain Ez where Ez: "ulp z = 2 powi (Ez - 52)" "- 1022 \<le> Ez" "\<bar>z\<bar> < 2 powi (Ez + 1)"
    "Ez = - 1022 \<or> 2 powi Ez \<le> \<bar>z\<bar>"
    using ulp_expo [of z] z by auto
  have ny: "nearest y = of_int (roundEven (y / 2 powi (Ey - 52))) * 2 powi (Ey - 52)"
    using nearest_grid [OF Ey(1)] assms(1) by simp
  have nz: "nearest z = of_int (roundEven (z / 2 powi (Ez - 52))) * 2 powi (Ez - 52)"
    using nearest_grid [OF Ez(1)] z by simp
  have le: "Ey \<le> Ez"
  proof (rule ccontr)
    assume "\<not> Ey \<le> Ez"
    then have l: "Ez + 1 \<le> Ey" by simp
    then have "Ey \<noteq> - 1022" using Ez(2) by simp
    with Ey(4) have "2 powi Ey \<le> y" using assms(1) by simp
    moreover have "(2::real) powi (Ez + 1) \<le> 2 powi Ey"
      using l by (intro power_int_increasing) simp_all
    ultimately show False using Ez(3) z assms(2) by simp
  qed
  show ?thesis
  proof (cases "Ey = Ez")
    case True
    have "y / 2 powi (Ez - 52) \<le> z / 2 powi (Ez - 52)"
      using assms(2) by (simp add: divide_right_mono)
    then have "roundEven (y / 2 powi (Ez - 52)) \<le> roundEven (z / 2 powi (Ez - 52))"
      by (rule roundEven_mono)
    then show ?thesis unfolding ny nz True by (simp add: mult_right_mono)
  next
    case False
    with le have l: "Ey + 1 \<le> Ez" by simp
    then have "Ez \<noteq> - 1022" using Ey(2) by simp
    with Ez(4) have zl: "2 powi Ez \<le> z" using z by simp
    have pz: "(2::real) powi Ez = 2 ^ 52 * 2 powi (Ez - 52)"
      using power_int_add [of "2::real" 52 "Ez - 52"] by simp
    have py: "(2::real) powi (Ey + 1) = 2 ^ 53 * 2 powi (Ey - 52)"
      using power_int_add [of "2::real" 53 "Ey - 52"] by (simp add: add.commute)
    have "of_int (2 ^ 52) \<le> z / 2 powi (Ez - 52)"
      using zl unfolding pz by (simp add: pos_le_divide_eq)
    then have "2 ^ 52 \<le> roundEven (z / 2 powi (Ez - 52))" by (rule roundEven_ge)
    then have "(2::real) ^ 52 \<le> of_int (roundEven (z / 2 powi (Ez - 52)))"
      by (metis of_int_le_iff of_int_numeral of_int_power)
    then have "2 ^ 52 * 2 powi (Ez - 52) \<le> nearest z"
      unfolding nz by (intro mult_right_mono) simp_all
    then have a: "2 powi Ez \<le> nearest z" by (simp only: pz)
    have "y / 2 powi (Ey - 52) \<le> of_int (2 ^ 53)"
      using Ey(3) assms(1) unfolding py by (simp add: pos_divide_le_eq)
    then have "roundEven (y / 2 powi (Ey - 52)) \<le> 2 ^ 53" by (rule roundEven_le)
    then have "of_int (roundEven (y / 2 powi (Ey - 52))) \<le> (2::real) ^ 53"
      by (metis of_int_le_iff of_int_numeral of_int_power)
    then have "nearest y \<le> 2 ^ 53 * 2 powi (Ey - 52)"
      unfolding ny by (intro mult_right_mono) simp_all
    then have b: "nearest y \<le> 2 powi (Ey + 1)" by (simp only: py)
    have "(2::real) powi (Ey + 1) \<le> 2 powi Ez"
      using l by (intro power_int_increasing) simp_all
    with a b show ?thesis by linarith
  qed
qed

lemma nearest_mono:
  assumes "y \<le> z"
  shows "nearest y \<le> nearest z"
proof -
  consider "0 < y" | "y \<le> 0" "0 \<le> z" | "z < 0" using assms by linarith
  then show ?thesis
  proof cases
    case 1
    then show ?thesis using assms by (rule nearest_mono_pos)
  next
    case 2
    have "0 \<le> nearest (- y)" using 2(1) by (intro nearest_nonneg) simp
    then have "nearest y \<le> 0" by (simp add: nearest_minus)
    moreover have "0 \<le> nearest z" using 2(2) by (rule nearest_nonneg)
    ultimately show ?thesis by linarith
  next
    case 3
    have "nearest (- z) \<le> nearest (- y)"
      using 3 assms by (intro nearest_mono_pos) simp_all
    then show ?thesis by (simp add: nearest_minus)
  qed
qed

section \<open>The range of the normalised longitude in double precision\<close>

lemma nearest_fixed_le: "nearest c = c \<Longrightarrow> y \<le> c \<Longrightarrow> nearest y \<le> c"
  using nearest_mono [of y c] by simp

lemma nearest_fixed_ge: "nearest c = c \<Longrightarrow> c \<le> y \<Longrightarrow> c \<le> nearest y"
  using nearest_mono [of c y] by simp

lemma nearest_max: "nearest (2 ^ 1024 - 2 ^ 971) = 2 ^ 1024 - 2 ^ 971"
proof -
  have "\<bar>2 ^ 53 - 1 :: int\<bar> < 2 ^ 53" by simp
  from nearest_dyadic [OF this, of 971] show ?thesis by simp
qed

lemma nearest_above_max: "nearest (2 ^ 1024 - 2 ^ 971 + 180) = 2 ^ 1024 - 2 ^ 971"
proof -
  have "ulp (2 ^ 1024 - 2 ^ 971 + 180) = 2 powi (max 1023 (- 1022) - 52)"
    by (rule ulp_eq) simp_all
  then have u: "ulp (2 ^ 1024 - 2 ^ 971 + 180) = 2 ^ 971" by simp
  have q: "(2 ^ 1024 - 2 ^ 971 + 180) / 2 ^ 971 = (2 ^ 53 - 1 + 180 / 2 ^ 971 :: real)"
    by simp
  have f: "\<lfloor>2 ^ 53 - 1 + 180 / 2 ^ 971 :: real\<rfloor> = 2 ^ 53 - 1"
    by (simp add: floor_eq_iff)
  have "roundEven (2 ^ 53 - 1 + 180 / 2 ^ 971) = 2 ^ 53 - 1"
    unfolding roundEven_def Let_def f by simp
  then show ?thesis
    unfolding nearest_def u q by simp
qed

lemma round64_no_overflow:
  assumes "\<bar>r\<bar> \<le> 2 ^ 1024 - 2 ^ 971 + 180"
  shows "round64 (Fin r) = Fin (nearest r)"
proof -
  have "nearest r \<le> nearest (2 ^ 1024 - 2 ^ 971 + 180)"
    using assms by (intro nearest_mono) simp
  then have a: "nearest r \<le> 2 ^ 1024 - 2 ^ 971" by (simp only: nearest_above_max)
  have "nearest (- (2 ^ 1024 - 2 ^ 971 + 180)) \<le> nearest r"
    using assms by (intro nearest_mono) simp
  then have b: "- (2 ^ 1024 - 2 ^ 971) \<le> nearest r"
    by (simp only: nearest_minus nearest_above_max)
  have "(2 ^ 1024 - 2 ^ 971 :: real) < 2 ^ 1024" by simp
  with a b have "\<bar>nearest r\<bar> < 2 ^ 1024" by linarith
  then show ?thesis by (rule round64_Fin)
qed

lemma fmod_range_pos:
  assumes "0 \<le> a"
  shows "0 \<le> fmod a 360" and "fmod a 360 < 360" and "fmod a 360 \<le> a"
proof -
  have t: "trunc (a / 360) = \<lfloor>a / 360\<rfloor>" using assms by (simp add: trunc_def)
  have "0 \<le> \<lfloor>a / 360\<rfloor>" using assms by simp
  then have "(0::real) \<le> of_int \<lfloor>a / 360\<rfloor>" by simp
  with floor360 [of a] show "0 \<le> fmod a 360" and "fmod a 360 < 360" and "fmod a 360 \<le> a"
    unfolding fmod_def t by linarith+
qed

lemma fmod_range_neg:
  assumes "a \<le> 0"
  shows "- 360 < fmod a 360" and "fmod a 360 \<le> 0"
proof -
  have "fmod (- a) 360 = - fmod a 360"
  proof (cases "a = 0")
    case True
    then show ?thesis by (simp add: fmod_def trunc_def)
  next
    case False
    then have "\<not> 0 \<le> a / 360" "0 \<le> - a / 360" using assms by simp_all
    then show ?thesis by (simp add: fmod_def trunc_def ceiling_def)
  qed
  with fmod_range_pos [of "- a"] assms show "- 360 < fmod a 360" and "fmod a 360 \<le> 0"
    by simp_all
qed

lemma nearest_grid44:
  assumes "256 \<le> w"
  shows "\<exists>A. nearest w = of_int A / 2 ^ 44"
proof -
  have w0: "w \<noteq> 0" using assms by simp
  obtain E where E: "ulp w = 2 powi (E - 52)" "\<bar>w\<bar> < 2 powi (E + 1)"
    using ulp_expo [OF w0] by auto
  have "8 \<le> E"
  proof (rule ccontr)
    assume "\<not> 8 \<le> E"
    then have "(2::real) powi (E + 1) \<le> 2 powi 8"
      by (intro power_int_increasing) simp_all
    with E(2) assms show False by simp
  qed
  define d where "d = nat (E - 8)"
  from \<open>8 \<le> E\<close> have "E - 52 = int d + (- 44)" by (simp add: d_def)
  then have "(2::real) powi (E - 52) = 2 powi (int d) * 2 powi (- 44)"
    by (metis power_int_add zero_neq_numeral)
  also have "\<dots> = 2 ^ d / 2 ^ 44"
    by (simp only: power_int_of_nat) (simp add: power_int_minus_divide)
  finally have p: "(2::real) powi (E - 52) = 2 ^ d / 2 ^ 44" .
  have "nearest w = of_int (roundEven (w / ulp w) * 2 ^ d) / 2 ^ 44"
    using w0 by (simp add: nearest_def E(1) p)
  then show ?thesis ..
qed

lemma nearest_below_180:
  assumes "0 \<le> nearest w"
  shows "nearest (fmod (nearest w) 360 - 180) < 180"
proof (cases "fmod (nearest w) 360 - 180 \<le> 180 - 1 / 2 ^ 45")
  case True
  have "nearest (180 - 1 / 2 ^ 45) = 180 - 1 / 2 ^ 45"
    using nearest_below_int [of 180] by simp
  from nearest_fixed_le [OF this True] show ?thesis by simp
next
  case False
  define a where "a = nearest w"
  define m where "m = fmod a 360"
  have m: "360 - 1 / 2 ^ 45 < m" "m < 360" "m \<le> a"
    using False fmod_range_pos [OF assms] by (simp_all add: m_def a_def)
  have "256 \<le> w"
  proof (rule ccontr)
    assume "\<not> 256 \<le> w"
    then have "nearest w \<le> nearest 256" by (intro nearest_mono) simp
    then show False using m by (simp add: a_def)
  qed
  then obtain A where A: "a = of_int A / 2 ^ 44"
    using nearest_grid44 [of w] by (auto simp: a_def)
  define M where "M = A - 360 * 2 ^ 44 * trunc (a / 360)"
  have mM: "m = of_int M / 2 ^ 44"
    by (simp add: m_def fmod_def M_def A diff_divide_distrib)
  have "of_int M < (360 * 2 ^ 44 :: real)"
    using m(2) unfolding mM by (simp add: pos_divide_less_eq)
  then have "M < 360 * 2 ^ 44"
    by (metis of_int_less_iff of_int_numeral of_int_mult of_int_power)
  then have "M \<le> 360 * 2 ^ 44 - 1" by simp
  then have "(of_int M :: real) \<le> of_int (360 * 2 ^ 44 - 1)" by (simp only: of_int_le_iff)
  then have "m \<le> 360 - 1 / 2 ^ 44"
    unfolding mM by (simp add: field_simps)
  with m(1) show ?thesis by simp
qed

lemma nearest_below_minus_180:
  assumes "y \<le> - 180" and "nearest y \<noteq> - 180"
  shows "nearest y \<le> - 180 - 1 / 2 ^ 45"
proof (cases "y \<le> - 180 - 1 / 2 ^ 45")
  case True
  have "\<bar>180 * 2 ^ 45 + 1 :: int\<bar> < 2 ^ 53" by simp
  from nearest_frac [OF this, of 45] have "nearest (180 + 1 / 2 ^ 45) = 180 + 1 / 2 ^ 45"
    by (simp add: field_simps)
  then have "nearest (- 180 - 1 / 2 ^ 45) = - 180 - 1 / 2 ^ 45"
    using nearest_minus [of "180 + 1 / 2 ^ 45"] by simp
  from nearest_fixed_le [OF this True] show ?thesis .
next
  case False
  have "ulp y = 2 powi (max 7 (- 1022) - 52)"
    using False assms(1) by (intro ulp_eq) simp_all
  then have u: "ulp y = 1 / 2 ^ 45" by (simp add: power_int_minus_divide)
  have y0: "y \<noteq> 0" using assms(1) by simp
  have n: "nearest y = of_int (roundEven (y * 2 ^ 45)) / 2 ^ 45"
    using nearest_grid [OF u y0] by simp
  have "of_int (- 180 * 2 ^ 45 - 1) \<le> y * 2 ^ 45"
    using False by (simp add: field_simps)
  then have lo: "- 180 * 2 ^ 45 - 1 \<le> roundEven (y * 2 ^ 45)" by (rule roundEven_ge)
  have "y * 2 ^ 45 \<le> of_int (- 180 * 2 ^ 45)"
    using assms(1) by simp
  then have hi: "roundEven (y * 2 ^ 45) \<le> - 180 * 2 ^ 45" by (rule roundEven_le)
  have "roundEven (y * 2 ^ 45) \<noteq> - 180 * 2 ^ 45"
  proof
    assume "roundEven (y * 2 ^ 45) = - 180 * 2 ^ 45"
    then have "nearest y = - 180" unfolding n by simp
    with assms(2) show False by simp
  qed
  with lo hi have "roundEven (y * 2 ^ 45) = - 180 * 2 ^ 45 - 1" by linarith
  then show ?thesis unfolding n by (simp add: field_simps)
qed

lemma normalizeLon64_range:
  assumes "\<bar>x\<bar> \<le> 2 ^ 1024 - 2 ^ 971"
  shows "\<exists>y. normalizeLon64 (Fin x) = Fin y \<and> - 180 \<le> y \<and> y < 180"
proof -
  define a where "a = nearest (x + 180)"
  define m where "m = fmod a 360"
  define n0 where "n0 = nearest (m - 180)"
  have big: "(540::real) \<le> 2 ^ 1024 - 2 ^ 971 + 180" by simp
  have "\<bar>x + 180\<bar> \<le> 2 ^ 1024 - 2 ^ 971 + 180" using assms by linarith
  then have A: "dadd (Fin x) (Fin 180) = Fin a"
    by (simp add: dadd_def a_def round64_no_overflow)
  have M: "jmod (Fin a) (Fin 360) = Fin m" by (simp add: m_def)
  have mb: "- 360 < m" "m < 360"
    using fmod_range_pos [of a] fmod_range_neg [of a] unfolding m_def by linarith+
  then have "\<bar>m - 180\<bar> \<le> 2 ^ 1024 - 2 ^ 971 + 180" using big by linarith
  then have N: "dsub (Fin m) (Fin 180) = Fin n0"
    by (simp add: dsub_def n0_def round64_no_overflow)
  have f180: "nearest (- 180) = - 180" "nearest (- 540) = - 540" by simp_all
  have e: "normalizeLon64 (Fin x) =
      (let n1 = (if n0 < - 180 then dadd (Fin n0) (Fin 360) else Fin n0)
       in if jgt n1 (Fin 180) then dsub n1 (Fin 360) else n1)"
    unfolding normalizeLon64_def A M N Let_def by simp
  show ?thesis
  proof (cases "0 \<le> a")
    case True
    then have "0 \<le> m" unfolding m_def by (rule fmod_range_pos)
    then have "- 180 \<le> m - 180" by simp
    from nearest_fixed_ge [OF f180(1) this] have lo: "- 180 \<le> n0" by (simp add: n0_def)
    have hi: "n0 < 180"
      using nearest_below_180 [of "x + 180"] True by (simp add: n0_def m_def a_def)
    from lo hi show ?thesis unfolding e by (simp add: jgt_def)
  next
    case False
    then have "m \<le> 0" unfolding m_def by (intro fmod_range_neg) simp
    then have y: "m - 180 \<le> - 180" "- 540 \<le> m - 180" using mb by simp_all
    from nearest_fixed_le [OF f180(1) y(1)] have hi: "n0 \<le> - 180" by (simp add: n0_def)
    from nearest_fixed_ge [OF f180(2) y(2)] have lo: "- 540 \<le> n0" by (simp add: n0_def)
    show ?thesis
    proof (cases "n0 = - 180")
      case True
      then show ?thesis unfolding e by (simp add: jgt_def)
    next
      case ne: False
      then have c: "n0 \<le> - 180 - 1 / 2 ^ 45"
        using nearest_below_minus_180 [OF y(1)] by (simp add: n0_def)
      then have lt: "n0 < - 180" by simp
      have z: "- 180 \<le> n0 + 360" "n0 + 360 \<le> 180 - 1 / 2 ^ 45" using lo c by simp_all
      have "n0 + 360 \<le> 180" using lt by simp
      with z(1) big have "\<bar>n0 + 360\<bar> \<le> 2 ^ 1024 - 2 ^ 971 + 180" by linarith
      then have D: "dadd (Fin n0) (Fin 360) = Fin (nearest (n0 + 360))"
        by (simp add: dadd_def round64_no_overflow)
      have t: "nearest (180 - 1 / 2 ^ 45) = 180 - 1 / 2 ^ 45"
        using nearest_below_int [of 180] by simp
      from nearest_fixed_ge [OF f180(1) z(1)] have l1: "- 180 \<le> nearest (n0 + 360)" .
      from nearest_fixed_le [OF t z(2)] have "nearest (n0 + 360) \<le> 180 - 1 / 2 ^ 45" .
      then have h1: "nearest (n0 + 360) < 180" by simp
      from l1 h1 lt show ?thesis unfolding e D by (simp add: jgt_def)
    qed
  qed
qed

text \<open>
  C4, amended. In double arithmetic, for every longitude \<open>lon\<close> (a double) for which the
  sums \<open>lon + 180\<close>, \<open>lon + 360\<close> and \<open>(lon + 360) + 180\<close> are exact, and for every latitude
  and grid, sampling at \<open>lon + 360\<close> returns the same wind as sampling at \<open>lon\<close>; and
  \<open>normalizeLon\<close> takes every finite double into \<open>[-180, 180)\<close>. With every operation
  computed exactly the two samples agree for every finite longitude, and \<open>normalizeLon\<close>
  takes a finite longitude into \<open>[-180, 180)\<close>.
\<close>

theorem windAt_lon_period:
  "(round64 (Fin x) = Fin x \<and> dadd (Fin x) (Fin 180) = Fin (x + 180) \<and>
    dadd (Fin x) (Fin 360) = Fin (x + 360) \<and> dadd (Fin (x + 360)) (Fin 180) = Fin (x + 540)
      \<longrightarrow> windAt64 g Us Vs (dadd (Fin x) (Fin 360)) la = windAt64 g Us Vs (Fin x) la) \<and>
   (\<bar>x\<bar> \<le> 2 ^ 1024 - 2 ^ 971
      \<longrightarrow> (\<exists>y. normalizeLon64 (Fin x) = Fin y \<and> - 180 \<le> y \<and> y < 180)) \<and>
   windAt g Us Vs (Fin (x + 360)) la = windAt g Us Vs (Fin x) la \<and>
   (\<exists>y. normalizeLon (Fin x) = Fin y \<and> - 180 \<le> y \<and> y < 180)"
proof -
  have "windAt64 g Us Vs (dadd (Fin x) (Fin 360)) la = windAt64 g Us Vs (Fin x) la"
    if "round64 (Fin x) = Fin x" and "dadd (Fin x) (Fin 180) = Fin (x + 180)"
      and "dadd (Fin x) (Fin 360) = Fin (x + 360)"
      and "dadd (Fin (x + 360)) (Fin 180) = Fin (x + 540)"
    using normalizeLon64_period [OF that] that(3) by (simp add: windAt64_def gridI64_def)
  moreover have "windAt g Us Vs (Fin (x + 360)) la = windAt g Us Vs (Fin x) la"
    by (simp add: windAt_def gridI_def normalizeLon_period)
  ultimately show ?thesis using normalizeLon_range [of x] normalizeLon64_range [of x] by blast
qed

theorem windAt_lon_period_witness:
  "round64 (Fin 10) = Fin 10 \<and> dadd (Fin 10) (Fin 180) = Fin (10 + 180) \<and>
   dadd (Fin 10) (Fin 360) = Fin (10 + 360) \<and> dadd (Fin (10 + 360)) (Fin 180) = Fin (10 + 540) \<and>
   windAt64 globe1 gapField gapField (dadd (Fin 10) (Fin 360)) (Fin (1 / 2)) =
     windAt64 globe1 gapField gapField (Fin 10) (Fin (1 / 2)) \<and>
   \<bar>10 :: real\<bar> \<le> 2 ^ 1024 - 2 ^ 971 \<and>
   (\<exists>y. normalizeLon64 (Fin 10) = Fin y \<and> - 180 \<le> y \<and> y < 180)"
proof -
  have h: "round64 (Fin 10) = Fin 10" "dadd (Fin 10) (Fin 180) = Fin (10 + 180)"
    "dadd (Fin 10) (Fin 360) = Fin (10 + 360)" "dadd (Fin (10 + 360)) (Fin 180) = Fin (10 + 540)"
    using round64_int [of 10] dadd_int [of 10 180] dadd_int [of 10 360] dadd_int [of 370 180]
    by simp_all
  have b: "\<bar>10 :: real\<bar> \<le> 2 ^ 1024 - 2 ^ 971" by simp
  from h b windAt_lon_period [of 10 globe1 gapField gapField "Fin (1 / 2)"]
  show ?thesis by blast
qed

text \<open>
  Counterexample to C4 as stated. The longitude \<open>- 160 - 1 / 2 ^ 45\<close> is a double, and so is
  that longitude plus 360. On the one-degree global grid, at latitude 0.5, the first is
  normalised to itself and falls in column 199, whose sample on row 89 is missing, so the
  wind is \<open>NaN\<close>. For the second, \<open>lon + 180 = 380 - 1 / 2 ^ 45\<close> lies halfway between two
  doubles and rounds to 380; the longitude is normalised to -160, falls in column 200, and
  the wind is 7.
\<close>

theorem windAt_lon_period_counterexample:
  "edgeLon = - 160 - 1 / 2 ^ 45 \<and>
   round64 (Fin edgeLon) = Fin edgeLon \<and>
   dadd (Fin edgeLon) (Fin 360) = Fin (edgeLon + 360) \<and>
   windAt64 globe1 gapField gapField (Fin edgeLon) (Fin (1 / 2)) = \<lparr> u = NaN, v = NaN \<rparr> \<and>
   windAt64 globe1 gapField gapField (dadd (Fin edgeLon) (Fin 360)) (Fin (1 / 2)) =
     \<lparr> u = Fin 7, v = Fin 7 \<rparr>"
proof -
  have "dadd (Fin edgeLon) (Fin 360) = Fin (edgeLon + 360)"
    using edgeLon_shift by (simp add: edgeLon_def)
  moreover have "windAt64 globe1 gapField gapField (dadd (Fin edgeLon) (Fin 360)) (Fin (1 / 2)) =
     \<lparr> u = Fin 7, v = Fin 7 \<rparr>"
    by (simp only: edgeLon_shift windAt64_shifted)
  ultimately show ?thesis
    using edgeLon_double windAt64_edge edgeLon_def by blast
qed

end
